theory Spec2Isabelle
  imports Main "HOL-Library.AList"
begin

section \<open>The object store\<close>

text \<open>
  \<^verbatim>\<open>khimera/plugins/create.py\<close> mutates shared objects: the components mapping of a plugin,
  the component sets it holds and the components themselves (\<^verbatim>\<open>attach\<close>). Objects therefore
  live in an explicit store, a list indexed by address; a fresh object is appended, so its
  address is the length of the store before. An address stands for Python's object identity.
\<close>

type_synonym addr = nat
type_synonym cls = string

text \<open>
  The exceptions that the code can raise. \<open>BadStore\<close> is no Python exception: it marks a
  store that Python cannot have (an address of no object, or an object of the wrong kind where
  the plugin keeps its mapping or a mapping keeps a list).
\<close>

datatype error =
    TypeError | KeyError | ValueError | IndexError | AttributeError | StopIteration
  | RecursionError | BadStore

text \<open>
  What an object holds, as far as this module reads it:
  \<^item> \<open>Named n o\<close>: an object exposing the attribute \<^verbatim>\<open>name\<close> and the method \<^verbatim>\<open>attach\<close>;
    \<open>o\<close> is the owner that \<^verbatim>\<open>attach\<close> recorded, if any;
  \<^item> \<open>Opaque\<close>: any other mutable object without these attributes (a plugin model);
  \<^item> \<open>Atomic\<close>: an immutable built-in value (\<^verbatim>\<open>None\<close>, a number, a string, a function,
    a class), which has neither attribute and which \<^verbatim>\<open>deepcopy\<close> returns as it is;
  \<^item> \<open>Items T xs\<close>: a list of references; \<open>T = Some t\<close> for a \<^verbatim>\<open>TypeConstrainedList\<close> whose
    item type is \<open>t\<close>, \<open>T = None\<close> for a built-in list;
  \<^item> \<open>Entries V kvs\<close>: a mapping from strings to references in insertion order;
    \<open>V = Some v\<close> for a \<^verbatim>\<open>TypeConstrainedDict(str, v)\<close>, \<open>V = None\<close> for a built-in dict.
  \<open>classes\<close> lists the names of the classes the object is an instance of (the method
  resolution order of its type), which is all that \<^verbatim>\<open>isinstance\<close> reads.
\<close>

datatype body =
    Named string "string option"
  | Opaque
  | Atomic
  | Items "cls option" "addr list"
  | Entries "cls option" "(string \<times> addr) list"

datatype obj = Obj (classes: "cls list") (body: body)

type_synonym heap = "obj list"

definition deref :: "heap \<Rightarrow> addr \<Rightarrow> obj option" where
  "deref h a = (if a < length h then Some (h ! a) else None)"

definition alloc :: "heap \<Rightarrow> obj \<Rightarrow> heap \<times> addr" where
  "alloc h ob = (h @ [ob], length h)"

definition isinstance :: "heap \<Rightarrow> addr \<Rightarrow> cls \<Rightarrow> bool" where
  "isinstance h a c = (case deref h a of None \<Rightarrow> False | Some ob \<Rightarrow> c \<in> set (classes ob))"

text \<open>
  A computation returns the store it leaves behind together with its result or the exception
  it raised: the store after an exception matters, since nothing is rolled back.
\<close>

type_synonym 'a outcome = "heap \<times> (error + 'a)"

fun andthen :: "'a outcome \<Rightarrow> ('a \<Rightarrow> heap \<Rightarrow> 'b outcome) \<Rightarrow> 'b outcome" where
  "andthen (h, Inl e) f = (h, Inl e)"
| "andthen (h, Inr x) f = f x h"

section \<open>Collaborators outside this file\<close>

subsection \<open>\<^verbatim>\<open>khimera.utils.factories.TypeConstrainedList\<close>\<close>

text \<open>
  Modelled from the spec: the class \<^verbatim>\<open>TypeConstrainedList\<close> is imported by
  \<^verbatim>\<open>create.py\<close> and defined elsewhere. Section 4.1 of the spec: an ordered, mutable sequence of
  a declared element type; each candidate element of append, insert, extend and assignment by
  index or slice is checked against the type before being stored, the operation fails with
  \<^verbatim>\<open>TypeError\<close> if the check fails, and the prior state is then unchanged; the other
  operations are those of a standard sequence (removal by value fails with \<^verbatim>\<open>ValueError\<close>
  if the value is absent). A built-in list (\<open>Items None\<close>) checks nothing.
\<close>

text \<open>
  Modelled from the spec: reading the elements of a \<^verbatim>\<open>TypeConstrainedList\<close> (class missing from the
  sources), which behaves as a standard ordered sequence.
\<close>

definition list_items :: "heap \<Rightarrow> addr \<Rightarrow> addr list outcome" where
  "list_items h l =
     (case deref h l of
        Some (Obj cs (Items T xs)) \<Rightarrow> (h, Inr xs)
      | _ \<Rightarrow> (h, Inl BadStore))"

text \<open>
  Modelled from the spec: the \<^verbatim>\<open>isinstance\<close>-style check of a value against the declared constraint,
  made by the constrained containers (classes missing from the sources).
\<close>

definition satisfies :: "heap \<Rightarrow> cls option \<Rightarrow> addr \<Rightarrow> bool" where
  "satisfies h T x = (case T of None \<Rightarrow> True | Some t \<Rightarrow> isinstance h x t)"

text \<open>
  Modelled from the spec: \<^verbatim>\<open>TypeConstrainedList.append\<close> (missing from the sources). The element is
  checked before being stored; on failure \<^verbatim>\<open>TypeError\<close> is raised and the prior state is unchanged.
\<close>

definition list_append :: "heap \<Rightarrow> addr \<Rightarrow> addr \<Rightarrow> unit outcome" where
  "list_append h l x =
     (case deref h l of
        Some (Obj cs (Items T xs)) \<Rightarrow>
          (if satisfies h T x then (h[l := Obj cs (Items T (xs @ [x]))], Inr ())
           else (h, Inl TypeError))
      | _ \<Rightarrow> (h, Inl BadStore))"

text \<open>
  Modelled from the spec: \<^verbatim>\<open>TypeConstrainedList.insert\<close> (missing from the sources), checked as
  append is. The position is that of a standard sequence: an index beyond either end is clamped.
\<close>

definition list_insert :: "heap \<Rightarrow> addr \<Rightarrow> int \<Rightarrow> addr \<Rightarrow> unit outcome" where
  "list_insert h l i x =
     (case deref h l of
        Some (Obj cs (Items T xs)) \<Rightarrow>
          (if satisfies h T x
           then (let n = int (length xs);
                     j = (if i < 0 then max 0 (n + i) else min n i)
                 in (h[l := Obj cs (Items T (take (nat j) xs @ x # drop (nat j) xs))], Inr ()))
           else (h, Inl TypeError))
      | _ \<Rightarrow> (h, Inl BadStore))"

text \<open>
  Modelled from the spec: \<^verbatim>\<open>TypeConstrainedList.extend\<close> (missing from the sources). Every candidate
  element is checked before any is stored, so that no partial mutation is observable.
\<close>

definition list_extend :: "heap \<Rightarrow> addr \<Rightarrow> addr list \<Rightarrow> unit outcome" where
  "list_extend h l ys =
     (case deref h l of
        Some (Obj cs (Items T xs)) \<Rightarrow>
          (if list_all (satisfies h T) ys then (h[l := Obj cs (Items T (xs @ ys))], Inr ())
           else (h, Inl TypeError))
      | _ \<Rightarrow> (h, Inl BadStore))"

text \<open>
  Modelled from the spec: assignment by index into a \<^verbatim>\<open>TypeConstrainedList\<close> (missing from the
  sources), checked as append is; then as in a standard sequence, where a negative index counts from
  the end and an index out of range raises \<^verbatim>\<open>IndexError\<close>.
\<close>

definition list_setitem :: "heap \<Rightarrow> addr \<Rightarrow> int \<Rightarrow> addr \<Rightarrow> unit outcome" where
  "list_setitem h l i x =
     (case deref h l of
        Some (Obj cs (Items T xs)) \<Rightarrow>
          (if satisfies h T x
           then (let n = int (length xs); j = (if i < 0 then n + i else i)
                 in if 0 \<le> j \<and> j < n then (h[l := Obj cs (Items T (xs[nat j := x]))], Inr ())
                    else (h, Inl IndexError))
           else (h, Inl TypeError))
      | _ \<Rightarrow> (h, Inl BadStore))"

text \<open>
  Modelled from the spec: assignment to a slice of a \<^verbatim>\<open>TypeConstrainedList\<close> (missing from the
  sources), \<^verbatim>\<open>xs[start:stop:step] = ys\<close>. Every candidate element is checked before any is
  stored; then as in a standard sequence. The bounds are adjusted as \<^verbatim>\<open>slice.indices\<close>
  does (an omitted bound is \<open>None\<close>); a step of zero raises \<^verbatim>\<open>ValueError\<close>; with step one
  the slice is replaced by the new elements, whatever their number; with any other step the
  new elements must be as many as the positions of the slice (\<^verbatim>\<open>ValueError\<close> otherwise)
  and are stored at these positions in turn.
\<close>

definition slice_indices :: "int \<Rightarrow> int option \<Rightarrow> int option \<Rightarrow> int \<Rightarrow> int \<times> int" where
  "slice_indices n start stop k =
     (let lower = (if k < 0 then - 1 else 0);
          upper = (if k < 0 then n - 1 else n);
          a = (case start of
                 None \<Rightarrow> (if k < 0 then upper else lower)
               | Some i \<Rightarrow> (if i < 0 then max (i + n) lower else min i upper));
          b = (case stop of
                 None \<Rightarrow> (if k < 0 then lower else upper)
               | Some j \<Rightarrow> (if j < 0 then max (j + n) lower else min j upper))
      in (a, b))"

definition slice_positions :: "int \<Rightarrow> int \<Rightarrow> int \<Rightarrow> nat list" where
  "slice_positions a b k =
     (let count = (if 0 < k \<and> a < b then (b - a - 1) div k + 1
                   else if k < 0 \<and> b < a then (a - b - 1) div (- k) + 1
                   else 0)
      in map (\<lambda>t. nat (a + int t * k)) [0..<nat count])"

fun store_each :: "'a list \<Rightarrow> nat list \<Rightarrow> 'a list \<Rightarrow> 'a list" where
  "store_each xs (p # ps) (y # ys) = store_each (xs[p := y]) ps ys"
| "store_each xs ps ys = xs"

definition list_setslice ::
  "heap \<Rightarrow> addr \<Rightarrow> int option \<Rightarrow> int option \<Rightarrow> int option \<Rightarrow> addr list \<Rightarrow> unit outcome" where
  "list_setslice h l start stop step ys =
     (case deref h l of
        Some (Obj cs (Items T xs)) \<Rightarrow>
          (if list_all (satisfies h T) ys
           then (let k = (case step of None \<Rightarrow> 1 | Some k \<Rightarrow> k)
                 in if k = 0 then (h, Inl ValueError)
                    else (let (a, b) = slice_indices (int (length xs)) start stop k
                          in if k = 1
                             then (h[l := Obj cs (Items T
                                       (take (nat a) xs @ ys @ drop (nat (max a b)) xs))],
                                   Inr ())
                             else if length ys \<noteq> length (slice_positions a b k)
                             then (h, Inl ValueError)
                             else (h[l := Obj cs (Items T
                                       (store_each xs (slice_positions a b k) ys))],
                                   Inr ())))
           else (h, Inl TypeError))
      | _ \<Rightarrow> (h, Inl BadStore))"

text \<open>
  Modelled from the spec: removal by value from a \<^verbatim>\<open>TypeConstrainedList\<close> (missing from the
  sources), that of a standard sequence: it deletes the first element equal to the value and
  fails with \<^verbatim>\<open>ValueError\<close> if there is none. Equality of the objects held here is
  Python's default, identity, so it is equality of addresses.
\<close>

definition list_remove :: "heap \<Rightarrow> addr \<Rightarrow> addr \<Rightarrow> unit outcome" where
  "list_remove h l x =
     (case deref h l of
        Some (Obj cs (Items T xs)) \<Rightarrow>
          (if x \<in> set xs then (h[l := Obj cs (Items T (remove1 x xs))], Inr ())
           else (h, Inl ValueError))
      | _ \<Rightarrow> (h, Inl BadStore))"

subsection \<open>\<^verbatim>\<open>khimera.utils.factories.TypeConstrainedDict\<close>\<close>

text \<open>
  Modelled from the spec: the class \<^verbatim>\<open>TypeConstrainedDict\<close> is imported by
  \<^verbatim>\<open>create.py\<close> and defined elsewhere. Section 4.2 of the spec: a mutable mapping with
  declared key and value types; \<^verbatim>\<open>__setitem__\<close> fails with \<^verbatim>\<open>TypeError\<close> if the value does
  not satisfy the value type and inserts or overwrites otherwise; membership, get with default
  and deletion are those of a standard mapping, and deleting an absent key fails with
  \<^verbatim>\<open>KeyError\<close>. Keys are strings throughout \<^verbatim>\<open>create.py\<close> (the key type there is
  \<^verbatim>\<open>str\<close>), so the model gives keys the type \<open>string\<close> and the key check always passes.
  A new key goes last and an overwritten key keeps its place, as in a Python dict.
\<close>

text \<open>
  Modelled from the spec: reading the entries of a \<^verbatim>\<open>TypeConstrainedDict\<close> (class missing from the
  sources), which behaves as a standard mapping.
\<close>

definition dict_entries :: "heap \<Rightarrow> addr \<Rightarrow> (string \<times> addr) list outcome" where
  "dict_entries h d =
     (case deref h d of
        Some (Obj cs (Entries V kvs)) \<Rightarrow> (h, Inr kvs)
      | _ \<Rightarrow> (h, Inl BadStore))"

text \<open>
  Modelled from the spec: the membership test \<^verbatim>\<open>key in mapping\<close> of a \<^verbatim>\<open>TypeConstrainedDict\<close>
  (missing from the sources), that of a standard mapping.
\<close>

definition dict_contains :: "heap \<Rightarrow> addr \<Rightarrow> string \<Rightarrow> bool outcome" where
  "dict_contains h d k =
     andthen (dict_entries h d) (\<lambda>kvs h. (h, Inr (map_of kvs k \<noteq> None)))"

text \<open>
  Modelled from the spec: \<^verbatim>\<open>mapping[key]\<close> on a \<^verbatim>\<open>TypeConstrainedDict\<close> (missing from the sources),
  that of a standard mapping: \<^verbatim>\<open>KeyError\<close> for an absent key.
\<close>

definition dict_getitem :: "heap \<Rightarrow> addr \<Rightarrow> string \<Rightarrow> addr outcome" where
  "dict_getitem h d k =
     andthen (dict_entries h d) (\<lambda>kvs h.
       case map_of kvs k of None \<Rightarrow> (h, Inl KeyError) | Some v \<Rightarrow> (h, Inr v))"

text \<open>
  Modelled from the spec: get with default on a \<^verbatim>\<open>TypeConstrainedDict\<close> (missing from the sources),
  that of a standard mapping.
\<close>

definition dict_get :: "heap \<Rightarrow> addr \<Rightarrow> string \<Rightarrow> addr \<Rightarrow> addr outcome" where
  "dict_get h d k dflt =
     andthen (dict_entries h d) (\<lambda>kvs h.
       case map_of kvs k of None \<Rightarrow> (h, Inr dflt) | Some v \<Rightarrow> (h, Inr v))"

text \<open>
  Modelled from the spec: \<^verbatim>\<open>TypeConstrainedDict.__setitem__\<close> (missing from the sources): fails with
  \<^verbatim>\<open>TypeError\<close> if the value does not satisfy the value type, otherwise inserts or overwrites.
\<close>

definition dict_setitem :: "heap \<Rightarrow> addr \<Rightarrow> string \<Rightarrow> addr \<Rightarrow> unit outcome" where
  "dict_setitem h d k v =
     (case deref h d of
        Some (Obj cs (Entries V kvs)) \<Rightarrow>
          (if satisfies h V v then (h[d := Obj cs (Entries V (AList.update k v kvs))], Inr ())
           else (h, Inl TypeError))
      | _ \<Rightarrow> (h, Inl BadStore))"

text \<open>
  Modelled from the spec: deletion from a \<^verbatim>\<open>TypeConstrainedDict\<close> (missing from the sources):
  deleting an absent key fails with \<^verbatim>\<open>KeyError\<close>.
\<close>

definition dict_delitem :: "heap \<Rightarrow> addr \<Rightarrow> string \<Rightarrow> unit outcome" where
  "dict_delitem h d k =
     (case deref h d of
        Some (Obj cs (Entries V kvs)) \<Rightarrow>
          (if map_of kvs k \<noteq> None then (h[d := Obj cs (Entries V (AList.delete k kvs))], Inr ())
           else (h, Inl KeyError))
      | _ \<Rightarrow> (h, Inl BadStore))"

text \<open>
  Modelled from the spec: the constructor of \<^verbatim>\<open>TypeConstrainedDict\<close> (missing from the sources)
  without an initial mapping: an empty mapping with the declared value type.
\<close>

definition TypeConstrainedDict :: "cls \<Rightarrow> obj" where
  "TypeConstrainedDict V = Obj [''TypeConstrainedDict''] (Entries (Some V) [])"

subsection \<open>\<^verbatim>\<open>khimera.components.core\<close>\<close>

text \<open>
  Modelled from the spec: the classes \<^verbatim>\<open>Component\<close> and \<^verbatim>\<open>ComponentSet\<close> are imported by
  \<^verbatim>\<open>create.py\<close> and defined elsewhere. Sections 2, 3 and 6 of the spec: a Component Set is a
  constrained list specialised to elements satisfying the Component contract, empty when
  built without arguments; a component exposes \<^verbatim>\<open>name\<close> and \<^verbatim>\<open>attach(providerName)\<close>, and
  attaching records the provider as the owner, overwriting any owner recorded before.
\<close>

text \<open>
  Modelled from the spec: the constructor of \<^verbatim>\<open>ComponentSet\<close> (missing from the sources) without
  arguments: an empty constrained list whose element type is \<^verbatim>\<open>Component\<close>.
\<close>

definition ComponentSet :: obj where
  "ComponentSet = Obj [''ComponentSet'', ''TypeConstrainedList''] (Items (Some ''Component'') [])"

text \<open>
  Modelled from the spec: \<^verbatim>\<open>Component.attach\<close> (missing from the sources) records the provider's name
  as the owner, overwriting any owner recorded before. An object without the method raises
  \<^verbatim>\<open>AttributeError\<close>, as any attribute lookup that fails does.
\<close>

definition attach :: "heap \<Rightarrow> addr \<Rightarrow> string \<Rightarrow> unit outcome" where
  "attach h c provider =
     (case deref h c of
        None \<Rightarrow> (h, Inl BadStore)
      | Some (Obj cs (Named n ow)) \<Rightarrow> (h[c := Obj cs (Named n (Some provider))], Inr ())
      | Some _ \<Rightarrow> (h, Inl AttributeError))"

text \<open>
  Modelled from the spec: reading the attribute \<^verbatim>\<open>name\<close> that a \<^verbatim>\<open>Component\<close> (missing from the
  sources) exposes.
\<close>

definition name_of :: "heap \<Rightarrow> addr \<Rightarrow> error + string" where
  "name_of h c =
     (case deref h c of
        None \<Rightarrow> Inl BadStore
      | Some (Obj cs (Named n ow)) \<Rightarrow> Inr n
      | Some _ \<Rightarrow> Inl AttributeError)"

text \<open>
  Modelled from the spec: the owner that a \<^verbatim>\<open>Component\<close> (missing from the sources) records when
  it is attached.
\<close>

definition owner_of :: "heap \<Rightarrow> addr \<Rightarrow> string option" where
  "owner_of h c = (case deref h c of Some (Obj cs (Named n ow)) \<Rightarrow> ow | _ \<Rightarrow> None)"

section \<open>\<^verbatim>\<open>class Plugin\<close>\<close>

text \<open>
  The attributes of a plugin. \<open>model\<close> and \<open>components\<close> are references into the store; the
  methods below never reassign an attribute, so the record itself is passed by value.
\<close>

record plugin =
  model :: addr
  name :: string
  version :: "string option"
  components :: addr

text \<open>
  \<^verbatim>\<open>add\<close>: lines 127 to 131. The three statements run in this order, and an exception of a
  later one leaves the effects of the earlier ones in the store.
\<close>

definition Plugin_add :: "plugin \<Rightarrow> string \<Rightarrow> addr \<Rightarrow> heap \<Rightarrow> plugin outcome" where
  "Plugin_add self key contrib h =
     andthen (dict_contains h (components self) key) (\<lambda>present h.
     andthen (if \<not> present
              then (let (h', s) = alloc h ComponentSet
                    in dict_setitem h' (components self) key s)
              else (h, Inr ())) (\<lambda>_ h.
     andthen (attach h contrib (name self)) (\<lambda>_ h.
     andthen (dict_getitem h (components self) key) (\<lambda>l h.
     andthen (list_append h l contrib) (\<lambda>_ h.
     (h, Inr self))))))"

text \<open>
  \<^verbatim>\<open>__init__\<close>: lines 94 to 99. The keyword arguments are added in the order given.
\<close>

fun add_each :: "plugin \<Rightarrow> (string \<times> addr) list \<Rightarrow> heap \<Rightarrow> plugin outcome" where
  "add_each self [] h = (h, Inr self)"
| "add_each self ((key, v) # kwargs) h =
     andthen (Plugin_add self key v h) (\<lambda>_ h. add_each self kwargs h)"

definition Plugin_init ::
  "addr \<Rightarrow> string \<Rightarrow> string option \<Rightarrow> (string \<times> addr) list \<Rightarrow> heap \<Rightarrow> plugin outcome" where
  "Plugin_init m n v kwargs h =
     (let (h', d) = alloc h (TypeConstrainedDict ''ComponentSet'')
      in add_each \<lparr>model = m, name = n, version = v, components = d\<rparr> kwargs h')"

text \<open>
  \<^verbatim>\<open>remove\<close>: lines 157 to 167. The generator expression handed to \<^verbatim>\<open>next\<close> reads the
  name of each element in turn and yields the first element whose name matches; \<^verbatim>\<open>next\<close>
  raises \<^verbatim>\<open>StopIteration\<close> when there is none. The handler catches \<^verbatim>\<open>ValueError\<close> only
  and raises \<^verbatim>\<open>ValueError\<close> again.
\<close>

fun next_named :: "heap \<Rightarrow> string \<Rightarrow> addr list \<Rightarrow> error + addr" where
  "next_named h n [] = Inl StopIteration"
| "next_named h n (c # cs) =
     (case name_of h c of
        Inl e \<Rightarrow> Inl e
      | Inr m \<Rightarrow> if m = n then Inr c else next_named h n cs)"

fun except_ValueError :: "'a outcome \<Rightarrow> 'a outcome" where
  "except_ValueError (h, Inl e) = (if e = ValueError then (h, Inl ValueError) else (h, Inl e))"
| "except_ValueError (h, Inr x) = (h, Inr x)"

definition Plugin_remove :: "plugin \<Rightarrow> string \<Rightarrow> string option \<Rightarrow> heap \<Rightarrow> plugin outcome" where
  "Plugin_remove self key contrib_name h =
     andthen (dict_contains h (components self) key) (\<lambda>present h.
     if \<not> present then (h, Inl KeyError)
     else andthen
       (case contrib_name of
          None \<Rightarrow> dict_delitem h (components self) key
        | Some n \<Rightarrow>
            except_ValueError
              (andthen (dict_getitem h (components self) key) (\<lambda>l h.
               andthen (list_items h l) (\<lambda>xs h.
               andthen (h, next_named h n xs) (\<lambda>contrib h.
               andthen (dict_getitem h (components self) key) (\<lambda>l' h.
               list_remove h l' contrib))))))
       (\<lambda>_ h. (h, Inr self)))"

text \<open>
  \<^verbatim>\<open>get\<close>: line 183. The default \<^verbatim>\<open>[]\<close> is a built-in list, built before the lookup.
\<close>

definition Plugin_get :: "plugin \<Rightarrow> string \<Rightarrow> heap \<Rightarrow> addr outcome" where
  "Plugin_get self key h =
     (let (h', dflt) = alloc h (Obj [''list''] (Items None []))
      in dict_get h' (components self) key dflt)"

text \<open>
  \<^verbatim>\<open>filter\<close>: lines 200 to 202. A class is truthy, so the test \<^verbatim>\<open>if category\<close> separates
  \<^verbatim>\<open>None\<close> from a class. The comprehension builds a built-in dict whose values are the
  references found in the plugin's mapping.
\<close>

fun any_isinstance :: "heap \<Rightarrow> cls \<Rightarrow> addr list \<Rightarrow> bool" where
  "any_isinstance h c [] = False"
| "any_isinstance h c (x # xs) = (if isinstance h x c then True else any_isinstance h c xs)"

fun comprehension :: "heap \<Rightarrow> cls \<Rightarrow> (string \<times> addr) list \<Rightarrow> error + (string \<times> addr) list" where
  "comprehension h c [] = Inr []"
| "comprehension h c ((key, contribs) # rest) =
     (case snd (list_items h contribs) of
        Inl e \<Rightarrow> Inl e
      | Inr xs \<Rightarrow>
          (case comprehension h c rest of
             Inl e \<Rightarrow> Inl e
           | Inr out \<Rightarrow> Inr (if any_isinstance h c xs then (key, contribs) # out else out)))"

definition Plugin_filter :: "plugin \<Rightarrow> cls option \<Rightarrow> heap \<Rightarrow> addr outcome" where
  "Plugin_filter self category h =
     (case category of
        Some c \<Rightarrow>
          andthen (dict_entries h (components self)) (\<lambda>kvs h.
          andthen (h, comprehension h c kvs) (\<lambda>out h.
          (let (h', r) = alloc h (Obj [''dict''] (Entries None out)) in (h', Inr r))))
      | None \<Rightarrow> (h, Inr (components self)))"

text \<open>
  \<^verbatim>\<open>copy\<close>: line 217, \<^verbatim>\<open>copy.deepcopy(self)\<close>. The standard library's \<^verbatim>\<open>deepcopy\<close> keeps a
  memo from the identity of each object met to its duplicate. An object found in the memo is
  not duplicated again; an atomic value is returned as it is, and is not entered in the memo;
  otherwise the duplicate of a container is created empty and registered in the memo first,
  and then filled with the duplicates of the elements, in order. The first argument bounds the nesting of the recursive calls, as the interpreter's
  recursion limit does: \<^verbatim>\<open>RecursionError\<close> is raised when the bound is reached.
\<close>

type_synonym memo = "(addr \<times> addr) list"

fun hollow :: "body \<Rightarrow> body" where
  "hollow (Items T xs) = Items T []"
| "hollow (Entries V kvs) = Entries V []"
| "hollow b = b"

fun children :: "body \<Rightarrow> addr list" where
  "children (Items T xs) = xs"
| "children (Entries V kvs) = map snd kvs"
| "children b = []"

fun refill :: "body \<Rightarrow> addr list \<Rightarrow> body" where
  "refill (Items T xs) ys = Items T ys"
| "refill (Entries V kvs) ys = Entries V (zip (map fst kvs) ys)"
| "refill b ys = b"

fun deepcopy :: "nat \<Rightarrow> addr \<Rightarrow> heap \<times> memo \<Rightarrow> (heap \<times> memo) \<times> (error + addr)"
  and deepcopy_each ::
    "nat \<Rightarrow> addr list \<Rightarrow> heap \<times> memo \<Rightarrow> (heap \<times> memo) \<times> (error + addr list)" where
  "deepcopy 0 x (h, m) = ((h, m), Inl RecursionError)"
| "deepcopy (Suc d) x (h, m) =
     (case map_of m x of
        Some y \<Rightarrow> ((h, m), Inr y)
      | None \<Rightarrow>
          (case deref h x of
             None \<Rightarrow> ((h, m), Inl BadStore)
           | Some (Obj cs b) \<Rightarrow>
               (if b = Atomic then ((h, m), Inr x)
                else
                  (case deepcopy_each d (children b)
                          (h @ [Obj cs (hollow b)], (x, length h) # m) of
                     (s, Inl e) \<Rightarrow> (s, Inl e)
                   | ((h', m'), Inr ys) \<Rightarrow>
                       ((h'[length h := Obj cs (refill b ys)], m'), Inr (length h))))))"
| "deepcopy_each d [] s = (s, Inr [])"
| "deepcopy_each d (x # xs) s =
     (case deepcopy d x s of
        (s', Inl e) \<Rightarrow> (s', Inl e)
      | (s', Inr y) \<Rightarrow>
          (case deepcopy_each d xs s' of
             (s'', Inl e) \<Rightarrow> (s'', Inl e)
           | (s'', Inr ys) \<Rightarrow> (s'', Inr (y # ys))))"

text \<open>
  The plugin itself is the outermost object that \<^verbatim>\<open>deepcopy\<close> duplicates: its attributes
  are duplicated one nesting level below, in the order of their assignment in
  \<^verbatim>\<open>__init__\<close>. Strings are immutable and copied as themselves.
\<close>

fun Plugin_copy :: "nat \<Rightarrow> plugin \<Rightarrow> heap \<Rightarrow> plugin outcome" where
  "Plugin_copy 0 self h = (h, Inl RecursionError)"
| "Plugin_copy (Suc d) self h =
     (case deepcopy d (model self) (h, []) of
        ((h1, m1), Inl e) \<Rightarrow> (h1, Inl e)
      | ((h1, m1), Inr mo) \<Rightarrow>
          (case deepcopy d (components self) (h1, m1) of
             ((h2, m2), Inl e) \<Rightarrow> (h2, Inl e)
           | ((h2, m2), Inr co) \<Rightarrow>
               (h2, Inr \<lparr>model = mo, name = name self, version = version self,
                          components = co\<rparr>)))"

section \<open>Well-formed plugins and what can be observed of them\<close>

text \<open>
  A component is an object that exposes \<^verbatim>\<open>name\<close> and \<^verbatim>\<open>attach\<close> and is an instance of
  \<^verbatim>\<open>Component\<close>. A plugin is well formed in a store when its \<open>components\<close> attribute is the
  constrained mapping that \<^verbatim>\<open>__init__\<close> creates, every value of the mapping is a
  \<^verbatim>\<open>ComponentSet\<close>, and every element of such a set is a component.
\<close>

fun component_obj :: "obj \<Rightarrow> bool" where
  "component_obj (Obj cs (Named n ow)) = (''Component'' \<in> set cs)"
| "component_obj (Obj cs b) = False"

definition is_component :: "heap \<Rightarrow> addr \<Rightarrow> bool" where
  "is_component h x = (case deref h x of None \<Rightarrow> False | Some ob \<Rightarrow> component_obj ob)"

fun component_set_obj :: "heap \<Rightarrow> obj \<Rightarrow> bool" where
  "component_set_obj h (Obj cs (Items T xs)) =
     (''ComponentSet'' \<in> set cs \<and> T = Some ''Component'' \<and> list_all (is_component h) xs)"
| "component_set_obj h (Obj cs b) = False"

definition is_component_set :: "heap \<Rightarrow> addr \<Rightarrow> bool" where
  "is_component_set h l =
     (case deref h l of None \<Rightarrow> False | Some ob \<Rightarrow> component_set_obj h ob)"

fun components_obj :: "heap \<Rightarrow> obj \<Rightarrow> bool" where
  "components_obj h (Obj cs (Entries V kvs)) =
     (V = Some ''ComponentSet'' \<and> list_all (\<lambda>kv. is_component_set h (snd kv)) kvs)"
| "components_obj h (Obj cs b) = False"

definition wf_plugin :: "heap \<Rightarrow> plugin \<Rightarrow> bool" where
  "wf_plugin h self =
     (case deref h (components self) of None \<Rightarrow> False | Some ob \<Rightarrow> components_obj h ob)"

text \<open>The elements of what \<^verbatim>\<open>get(key)\<close> returns, in order.\<close>

definition get_items :: "plugin \<Rightarrow> string \<Rightarrow> heap \<Rightarrow> error + addr list" where
  "get_items self key h = snd (andthen (Plugin_get self key h) (\<lambda>l h. list_items h l))"

text \<open>
  The addresses of the objects that make up a plugin: the model, the mapping, the sets it
  holds and their elements.
\<close>

definition items_at :: "heap \<Rightarrow> addr \<Rightarrow> addr list" where
  "items_at h l = (case deref h l of Some (Obj cs (Items T xs)) \<Rightarrow> xs | _ \<Rightarrow> [])"

definition values_at :: "heap \<Rightarrow> addr \<Rightarrow> addr list" where
  "values_at h d = (case deref h d of Some (Obj cs (Entries V kvs)) \<Rightarrow> map snd kvs | _ \<Rightarrow> [])"

definition footprint :: "heap \<Rightarrow> plugin \<Rightarrow> addr list" where
  "footprint h self =
     model self # components self # values_at h (components self)
       @ concat (map (items_at h) (values_at h (components self)))"

text \<open>
  The observable state of a plugin, with the identities of the objects left out: its name and
  version and, for each key in order, the class and constraint of the set and the objects in
  it.
\<close>

definition set_view :: "heap \<Rightarrow> addr \<Rightarrow> (cls list \<times> cls option \<times> obj option list) option" where
  "set_view h l =
     (case deref h l of
        Some (Obj cs (Items T xs)) \<Rightarrow> Some (cs, T, map (deref h) xs)
      | _ \<Rightarrow> None)"

definition view ::
  "heap \<Rightarrow> plugin \<Rightarrow>
   (string \<times> string option \<times> obj option \<times> cls list \<times> cls option \<times>
    (string \<times> (cls list \<times> cls option \<times> obj option list) option) list) option" where
  "view h self =
     (case deref h (components self) of
        Some (Obj cs (Entries V kvs)) \<Rightarrow>
          Some (name self, version self, deref h (model self), cs, V,
                map (\<lambda>kv. (fst kv, set_view h (snd kv))) kvs)
      | _ \<Rightarrow> None)"

section \<open>Scenarios and an example store\<close>

text \<open>
  Adding two components under a key and reading the key back:
  \<^verbatim>\<open>plugin.add(key, c1); plugin.add(key, c2); plugin.get(key)\<close>.
\<close>

definition add_add_get :: "plugin \<Rightarrow> string \<Rightarrow> addr \<Rightarrow> addr \<Rightarrow> heap \<Rightarrow> error + addr list" where
  "add_add_get self key c1 c2 h =
     snd (andthen (Plugin_add self key c1 h) (\<lambda>_ h.
          andthen (Plugin_add self key c2 h) (\<lambda>_ h.
          andthen (Plugin_get self key h) (\<lambda>l h. list_items h l))))"

text \<open>
  A store to run the operations on: a plugin model, four components, an object that exposes
  \<^verbatim>\<open>name\<close> and \<^verbatim>\<open>attach\<close> without being a component, and a number.
\<close>

definition example_store :: heap where
  "example_store =
     [Obj [''PluginModel''] Opaque,
      Obj [''Command'', ''Component''] (Named ''CommandA'' None),
      Obj [''Command'', ''Component''] (Named ''CommandB'' None),
      Obj [''Asset'', ''Component''] (Named ''logo'' None),
      Obj [''Command'', ''Component''] (Named ''CommandC'' None),
      Obj [''Mock''] (Named ''fake'' None),
      Obj [''int''] Atomic]"

definition example_plugin :: plugin where
  "example_plugin = \<lparr>model = 0, name = ''p'', version = Some ''1.0'', components = 7\<rparr>"

text \<open>
  The store after \<^verbatim>\<open>Plugin(model, "p", "1.0")\<close> followed by \<^verbatim>\<open>add("cmds", CommandA)\<close>,
  \<^verbatim>\<open>add("cmds", CommandB)\<close> and \<^verbatim>\<open>add("assets", logo)\<close>.
\<close>

definition populated_store :: heap where
  "populated_store =
     [Obj [''PluginModel''] Opaque,
      Obj [''Command'', ''Component''] (Named ''CommandA'' (Some ''p'')),
      Obj [''Command'', ''Component''] (Named ''CommandB'' (Some ''p'')),
      Obj [''Asset'', ''Component''] (Named ''logo'' (Some ''p'')),
      Obj [''Command'', ''Component''] (Named ''CommandC'' None),
      Obj [''Mock''] (Named ''fake'' None),
      Obj [''int''] Atomic,
      Obj [''TypeConstrainedDict'']
        (Entries (Some ''ComponentSet'') [(''cmds'', 8), (''assets'', 9)]),
      Obj [''ComponentSet'', ''TypeConstrainedList''] (Items (Some ''Component'') [1, 2]),
      Obj [''ComponentSet'', ''TypeConstrainedList''] (Items (Some ''Component'') [3])]"

text \<open>
  The same store with a second plugin, named \<^verbatim>\<open>q\<close>, that holds nothing yet.
\<close>

definition shared_store :: heap where
  "shared_store =
     populated_store @ [Obj [''TypeConstrainedDict''] (Entries (Some ''ComponentSet'') [])]"

definition other_plugin :: plugin where
  "other_plugin = \<lparr>model = 0, name = ''q'', version = None, components = 10\<rparr>"

section \<open>Notions used to reason about \<^verbatim>\<open>deepcopy\<close>\<close>

text \<open>
  \<open>depth_le k h x\<close>: the object at \<open>x\<close> exists in \<open>h\<close> and every chain of references from
  it ends after fewer than \<open>k\<close> steps, at objects of \<open>h\<close>; none of the objects met is
  atomic, so that \<^verbatim>\<open>deepcopy\<close> duplicates each of them.
\<close>

primrec depth_le :: "nat \<Rightarrow> heap \<Rightarrow> addr \<Rightarrow> bool" where
  "depth_le 0 h x = False"
| "depth_le (Suc k) h x =
     (case deref h x of
        None \<Rightarrow> False
      | Some ob \<Rightarrow> body ob \<noteq> Atomic \<and> list_all (depth_le k h) (children (body ob)))"

text \<open>
  \<open>faithful h0 h m x y\<close>: the object at \<open>y\<close> in \<open>h\<close> is the finished duplicate of the object
  at \<open>x\<close> in \<open>h0\<close>: same classes, same data, and each reference replaced by what the memo
  \<open>m\<close> gives for it.
\<close>

definition faithful :: "heap \<Rightarrow> heap \<Rightarrow> memo \<Rightarrow> addr \<Rightarrow> addr \<Rightarrow> bool" where
  "faithful h0 h m x y =
     (case deref h0 x of
        None \<Rightarrow> False
      | Some ob \<Rightarrow>
          (\<forall>z\<in>set (children (body ob)). map_of m z \<noteq> None) \<and>
          deref h y =
            Some (Obj (classes ob)
                   (refill (body ob) (map (\<lambda>z. the (map_of m z)) (children (body ob))))))"

text \<open>
  The invariant of a run of \<^verbatim>\<open>deepcopy\<close> that started in the store \<open>h0\<close>: the store still
  begins with \<open>h0\<close>; the memo maps objects of \<open>h0\<close> to distinct objects allocated since; and
  every duplicate is finished, but for those of the objects in \<open>P\<close>, which are being filled.
\<close>

definition copying :: "addr set \<Rightarrow> heap \<Rightarrow> heap \<times> memo \<Rightarrow> bool" where
  "copying P h0 s =
     (take (length h0) (fst s) = h0 \<and>
      (\<forall>x y. map_of (snd s) x = Some y \<longrightarrow>
         x < length h0 \<and> length h0 \<le> y \<and> y < length (fst s)) \<and>
      (\<forall>x x' y. map_of (snd s) x = Some y \<longrightarrow> map_of (snd s) x' = Some y \<longrightarrow> x = x') \<and>
      (\<forall>x y. map_of (snd s) x = Some y \<longrightarrow> x \<notin> P \<longrightarrow> faithful h0 (fst s) (snd s) x y) \<and>
      P \<subseteq> dom (map_of (snd s)))"

text \<open>
  The populated store after \<^verbatim>\<open>clone = plugin.copy()\<close>, and the clone.
\<close>

definition copied_store :: heap where
  "copied_store =
     populated_store @
     [Obj [''PluginModel''] Opaque,
      Obj [''TypeConstrainedDict'']
        (Entries (Some ''ComponentSet'') [(''cmds'', 12), (''assets'', 15)]),
      Obj [''ComponentSet'', ''TypeConstrainedList''] (Items (Some ''Component'') [13, 14]),
      Obj [''Command'', ''Component''] (Named ''CommandA'' (Some ''p'')),
      Obj [''Command'', ''Component''] (Named ''CommandB'' (Some ''p'')),
      Obj [''ComponentSet'', ''TypeConstrainedList''] (Items (Some ''Component'') [16]),
      Obj [''Asset'', ''Component''] (Named ''logo'' (Some ''p''))]"

definition example_clone :: plugin where
  "example_clone = \<lparr>model = 10, name = ''p'', version = Some ''1.0'', components = 11\<rparr>"

text \<open>
  The store with both plugins after \<^verbatim>\<open>q.add("tools", CommandA)\<close>: CommandA is still held
  by \<^verbatim>\<open>p\<close> under \<^verbatim>\<open>cmds\<close>, and its owner is now \<^verbatim>\<open>q\<close>. Then the same store after
  \<^verbatim>\<open>clone = p.copy()\<close>, and the clone.
\<close>

definition reused_store :: heap where
  "reused_store =
     [Obj [''PluginModel''] Opaque,
      Obj [''Command'', ''Component''] (Named ''CommandA'' (Some ''q'')),
      Obj [''Command'', ''Component''] (Named ''CommandB'' (Some ''p'')),
      Obj [''Asset'', ''Component''] (Named ''logo'' (Some ''p'')),
      Obj [''Command'', ''Component''] (Named ''CommandC'' None),
      Obj [''Mock''] (Named ''fake'' None),
      Obj [''int''] Atomic,
      Obj [''TypeConstrainedDict'']
        (Entries (Some ''ComponentSet'') [(''cmds'', 8), (''assets'', 9)]),
      Obj [''ComponentSet'', ''TypeConstrainedList''] (Items (Some ''Component'') [1, 2]),
      Obj [''ComponentSet'', ''TypeConstrainedList''] (Items (Some ''Component'') [3]),
      Obj [''TypeConstrainedDict''] (Entries (Some ''ComponentSet'') [(''tools'', 11)]),
      Obj [''ComponentSet'', ''TypeConstrainedList''] (Items (Some ''Component'') [1])]"

definition reused_copy :: heap where
  "reused_copy =
     reused_store @
     [Obj [''PluginModel''] Opaque,
      Obj [''TypeConstrainedDict'']
        (Entries (Some ''ComponentSet'') [(''cmds'', 14), (''assets'', 17)]),
      Obj [''ComponentSet'', ''TypeConstrainedList''] (Items (Some ''Component'') [15, 16]),
      Obj [''Command'', ''Component''] (Named ''CommandA'' (Some ''q'')),
      Obj [''Command'', ''Component''] (Named ''CommandB'' (Some ''p'')),
      Obj [''ComponentSet'', ''TypeConstrainedList''] (Items (Some ''Component'') [18]),
      Obj [''Asset'', ''Component''] (Named ''logo'' (Some ''p''))]"

definition reused_clone :: plugin where
  "reused_clone = \<lparr>model = 12, name = ''p'', version = Some ''1.0'', components = 13\<rparr>"

section \<open>Lemmas about the store and the primitives\<close>

subsection \<open>The store\<close>

lemma deref_Some_iff: "deref h a = Some ob \<longleftrightarrow> a < length h \<and> h ! a = ob"
  by (simp add: deref_def)

lemma deref_None_iff: "deref h a = None \<longleftrightarrow> length h \<le> a"
  by (simp add: deref_def)

lemma deref_append: "deref (h @ ext) a = (if a < length h then deref h a else deref ext (a - length h))"
  by (auto simp: deref_def nth_append)

lemma deref_append_Some: "deref h a = Some ob \<Longrightarrow> deref (h @ ext) a = Some ob"
  by (auto simp: deref_def nth_append)

lemma deref_snoc_new: "deref (h @ [ob]) (length h) = Some ob"
  by (simp add: deref_def)

lemma deref_update: "deref (h[a := ob]) b = (if b = a \<and> a < length h then Some ob else deref h b)"
  by (auto simp: deref_def)

lemma deref_update_same: "deref h a = Some ob' \<Longrightarrow> deref (h[a := ob]) a = Some ob"
  by (auto simp: deref_def split: if_splits)

lemma deref_update_other: "b \<noteq> a \<Longrightarrow> deref (h[a := ob]) b = deref h b"
  by (auto simp: deref_def)

lemma isinstance_update:
  "deref h a = Some (Obj cs b) \<Longrightarrow> isinstance (h[a := Obj cs b']) x c = isinstance h x c"
  by (auto simp: isinstance_def deref_def nth_list_update split: if_splits)

lemma isinstance_append: "deref h x = Some ob \<Longrightarrow> isinstance (h @ ext) x c = isinstance h x c"
  by (simp add: isinstance_def deref_append_Some)

subsection \<open>The primitives on a store of the right shape\<close>

lemma dict_entries_at:
  "deref h d = Some (Obj cs (Entries V kvs)) \<Longrightarrow> dict_entries h d = (h, Inr kvs)"
  by (simp add: dict_entries_def)

lemma dict_contains_at:
  "deref h d = Some (Obj cs (Entries V kvs)) \<Longrightarrow> dict_contains h d k = (h, Inr (map_of kvs k \<noteq> None))"
  by (simp add: dict_contains_def dict_entries_at)

lemma dict_getitem_at:
  "deref h d = Some (Obj cs (Entries V kvs)) \<Longrightarrow>
   dict_getitem h d k = (case map_of kvs k of None \<Rightarrow> (h, Inl KeyError) | Some v \<Rightarrow> (h, Inr v))"
  by (simp add: dict_getitem_def dict_entries_at)

lemma dict_get_at:
  "deref h d = Some (Obj cs (Entries V kvs)) \<Longrightarrow>
   dict_get h d k dflt = (h, Inr (case map_of kvs k of None \<Rightarrow> dflt | Some v \<Rightarrow> v))"
  by (simp add: dict_get_def dict_entries_at split: option.splits)

lemma dict_setitem_at:
  "deref h d = Some (Obj cs (Entries V kvs)) \<Longrightarrow>
   dict_setitem h d k v =
     (if satisfies h V v then (h[d := Obj cs (Entries V (AList.update k v kvs))], Inr ())
      else (h, Inl TypeError))"
  by (simp add: dict_setitem_def)

lemma dict_delitem_at:
  "deref h d = Some (Obj cs (Entries V kvs)) \<Longrightarrow>
   dict_delitem h d k =
     (if map_of kvs k \<noteq> None then (h[d := Obj cs (Entries V (AList.delete k kvs))], Inr ())
      else (h, Inl KeyError))"
  by (simp add: dict_delitem_def)

lemma list_items_at:
  "deref h l = Some (Obj cs (Items T xs)) \<Longrightarrow> list_items h l = (h, Inr xs)"
  by (simp add: list_items_def)

lemma list_append_at:
  "deref h l = Some (Obj cs (Items T xs)) \<Longrightarrow>
   list_append h l x =
     (if satisfies h T x then (h[l := Obj cs (Items T (xs @ [x]))], Inr ())
      else (h, Inl TypeError))"
  by (simp add: list_append_def)

lemma list_remove_at:
  "deref h l = Some (Obj cs (Items T xs)) \<Longrightarrow>
   list_remove h l x =
     (if x \<in> set xs then (h[l := Obj cs (Items T (remove1 x xs))], Inr ())
      else (h, Inl ValueError))"
  by (simp add: list_remove_def)

lemma attach_at:
  "deref h c = Some (Obj cs (Named n ow)) \<Longrightarrow>
   attach h c p = (h[c := Obj cs (Named n (Some p))], Inr ())"
  by (simp add: attach_def)

lemma name_of_at: "deref h c = Some (Obj cs (Named n ow)) \<Longrightarrow> name_of h c = Inr n"
  by (simp add: name_of_def)

lemma owner_of_at: "deref h c = Some (Obj cs (Named n ow)) \<Longrightarrow> owner_of h c = ow"
  by (simp add: owner_of_def)

subsection \<open>Well-formedness, unfolded\<close>

lemma is_componentE:
  assumes "is_component h x"
  obtains cs n ow where "deref h x = Some (Obj cs (Named n ow))" and "''Component'' \<in> set cs"
  using assms
  by (auto simp: is_component_def split: option.splits elim!: component_obj.elims)

lemma is_componentI:
  "deref h x = Some (Obj cs (Named n ow)) \<Longrightarrow> ''Component'' \<in> set cs \<Longrightarrow> is_component h x"
  by (simp add: is_component_def)

lemma is_component_setE:
  assumes "is_component_set h l"
  obtains cs xs where "deref h l = Some (Obj cs (Items (Some ''Component'') xs))"
    and "''ComponentSet'' \<in> set cs" and "\<forall>x\<in>set xs. is_component h x"
  using assms
  by (auto simp: is_component_set_def list_all_iff split: option.splits
           elim!: component_set_obj.elims)

lemma is_component_setI:
  "deref h l = Some (Obj cs (Items (Some ''Component'') xs)) \<Longrightarrow> ''ComponentSet'' \<in> set cs \<Longrightarrow>
   \<forall>x\<in>set xs. is_component h x \<Longrightarrow> is_component_set h l"
  by (simp add: is_component_set_def list_all_iff)

lemma wf_pluginE:
  assumes "wf_plugin h self"
  obtains cs kvs where "deref h (components self) = Some (Obj cs (Entries (Some ''ComponentSet'') kvs))"
    and "\<forall>kv\<in>set kvs. is_component_set h (snd kv)"
  using assms
  by (auto simp: wf_plugin_def list_all_iff split: option.splits elim!: components_obj.elims)

lemma wf_pluginI:
  "deref h (components self) = Some (Obj cs (Entries (Some ''ComponentSet'') kvs)) \<Longrightarrow>
   \<forall>kv\<in>set kvs. is_component_set h (snd kv) \<Longrightarrow> wf_plugin h self"
  by (simp add: wf_plugin_def list_all_iff)

lemma map_of_is_component_set:
  "\<forall>kv\<in>set kvs. is_component_set h (snd kv) \<Longrightarrow> map_of kvs k = Some l \<Longrightarrow> is_component_set h l"
  by (force dest: map_of_SomeD)

subsection \<open>What add does\<close>

lemma add_present:
  assumes d: "deref h (components self) = Some (Obj cs (Entries V kvs))"
    and k: "map_of kvs key = Some l"
    and l: "deref h l = Some (Obj lcs (Items T xs))"
    and c: "deref h contrib = Some (Obj ccs (Named n ow))"
  shows "Plugin_add self key contrib h =
     (if satisfies h T contrib
      then (h[contrib := Obj ccs (Named n (Some (name self))),
              l := Obj lcs (Items T (xs @ [contrib]))], Inr self)
      else (h[contrib := Obj ccs (Named n (Some (name self)))], Inl TypeError))"
proof -
  let ?h1 = "h[contrib := Obj ccs (Named n (Some (name self)))]"
  have ne: "components self \<noteq> contrib" "l \<noteq> contrib"
    using d l c by auto
  have d1: "deref ?h1 (components self) = Some (Obj cs (Entries V kvs))"
    using d ne by (simp add: deref_update_other)
  have l1: "deref ?h1 l = Some (Obj lcs (Items T xs))"
    using l ne by (simp add: deref_update_other)
  have s1: "satisfies ?h1 T contrib = satisfies h T contrib"
    using c by (simp add: satisfies_def isinstance_update split: option.splits)
  show ?thesis
    by (simp add: Plugin_add_def dict_contains_at [OF d] k attach_at [OF c]
        dict_getitem_at [OF d1] list_append_at [OF l1] s1)
qed

lemma add_absent:
  assumes d: "deref h (components self) = Some (Obj cs (Entries (Some ''ComponentSet'') kvs))"
    and k: "map_of kvs key = None"
    and c: "deref h contrib = Some (Obj ccs (Named n ow))"
  shows "Plugin_add self key contrib h =
     (if ''Component'' \<in> set ccs
      then ((h @ [Obj [''ComponentSet'', ''TypeConstrainedList''] (Items (Some ''Component'') [contrib])])
              [components self := Obj cs (Entries (Some ''ComponentSet'') (AList.update key (length h) kvs)),
               contrib := Obj ccs (Named n (Some (name self)))], Inr self)
      else ((h @ [ComponentSet])
              [components self := Obj cs (Entries (Some ''ComponentSet'') (AList.update key (length h) kvs)),
               contrib := Obj ccs (Named n (Some (name self)))], Inl TypeError))"
proof -
  let ?h0 = "h @ [ComponentSet]"
  let ?h1 = "?h0[components self := Obj cs (Entries (Some ''ComponentSet'') (AList.update key (length h) kvs))]"
  let ?h2 = "?h1[contrib := Obj ccs (Named n (Some (name self)))]"
  have lt: "components self < length h" "contrib < length h"
    using d c by (auto simp: deref_Some_iff)
  have ne: "components self \<noteq> contrib"
    using d c by auto
  have d0: "deref ?h0 (components self) = Some (Obj cs (Entries (Some ''ComponentSet'') kvs))"
    using d by (rule deref_append_Some)
  have sat: "satisfies ?h0 (Some ''ComponentSet'') (length h)"
    by (simp add: satisfies_def isinstance_def deref_snoc_new ComponentSet_def)
  have set0: "dict_setitem ?h0 (components self) key (length h) = (?h1, Inr ())"
    by (simp add: dict_setitem_at [OF d0] sat)
  have c1: "deref ?h1 contrib = Some (Obj ccs (Named n ow))"
    using c ne by (simp add: deref_update_other deref_append_Some)
  have d2: "deref ?h2 (components self) =
      Some (Obj cs (Entries (Some ''ComponentSet'') (AList.update key (length h) kvs)))"
    using ne lt by (simp add: deref_update)
  have l2: "deref ?h2 (length h) = Some (Obj [''ComponentSet'', ''TypeConstrainedList''] (Items (Some ''Component'') []))"
    using lt by (simp add: deref_update deref_snoc_new ComponentSet_def)
  have s2: "satisfies ?h2 (Some ''Component'') contrib \<longleftrightarrow> ''Component'' \<in> set ccs"
    using lt by (simp add: satisfies_def isinstance_def deref_update)
  have upd: "?h2[length h := Obj [''ComponentSet'', ''TypeConstrainedList''] (Items (Some ''Component'') [contrib])]
     = (h @ [Obj [''ComponentSet'', ''TypeConstrainedList''] (Items (Some ''Component'') [contrib])])
          [components self := Obj cs (Entries (Some ''ComponentSet'') (AList.update key (length h) kvs)),
           contrib := Obj ccs (Named n (Some (name self)))]"
    using lt by (simp add: list_update_append list_update_swap [of "length h"])
  show ?thesis
    using lt
    by (simp add: Plugin_add_def dict_contains_at [OF d] k alloc_def set0 attach_at [OF c1]
        dict_getitem_at [OF d2] update_conv' list_append_at [OF l2] s2 upd)
qed


subsection \<open>What get yields\<close>

lemma Plugin_get_at:
  assumes "deref h (components self) = Some (Obj cs (Entries V kvs))"
  shows "Plugin_get self key h =
     (h @ [Obj [''list''] (Items None [])],
      Inr (case map_of kvs key of None \<Rightarrow> length h | Some l \<Rightarrow> l))"
  using assms by (simp add: Plugin_get_def alloc_def dict_get_at [OF deref_append_Some])

lemma get_items_present:
  assumes "deref h (components self) = Some (Obj cs (Entries V kvs))"
    and "map_of kvs key = Some l" and "deref h l = Some (Obj lcs (Items T xs))"
  shows "get_items self key h = Inr xs"
  using assms
  by (simp add: get_items_def Plugin_get_at list_items_at [OF deref_append_Some])

lemma get_items_absent:
  assumes "deref h (components self) = Some (Obj cs (Entries V kvs))"
    and "map_of kvs key = None"
  shows "get_items self key h = Inr []"
  using assms
  by (simp add: get_items_def Plugin_get_at list_items_def deref_snoc_new)

subsection \<open>Inversion of the primitives\<close>

lemma andthen_Inr:
  assumes "andthen m f = (h', Inr y)"
  obtains h1 x where "m = (h1, Inr x)" and "f x h1 = (h', Inr y)"
  using assms by (cases m; cases "snd m") auto

lemma attach_Inr:
  assumes "attach h c p = (h', Inr u)"
  obtains cs n ow where "deref h c = Some (Obj cs (Named n ow))"
    and "h' = h[c := Obj cs (Named n (Some p))]"
  using assms
  by (auto simp: attach_def split: option.splits obj.splits body.splits)

lemma list_append_Inr:
  assumes "list_append h l x = (h', Inr u)"
  obtains cs T xs where "deref h l = Some (Obj cs (Items T xs))"
    and "h' = h[l := Obj cs (Items T (xs @ [x]))]"
  using assms
  by (auto simp: list_append_def split: option.splits obj.splits body.splits if_splits)

lemma dict_getitem_Inr:
  assumes "dict_getitem h d k = (h', Inr l)"
  obtains cs V kvs where "h' = h" and "deref h d = Some (Obj cs (Entries V kvs))"
    and "map_of kvs k = Some l"
  using assms
  by (auto simp: dict_getitem_def dict_entries_def
           split: option.splits obj.splits body.splits)

lemma dict_setitem_Inr:
  assumes "dict_setitem h d k v = (h', Inr u)"
  obtains cs V kvs where "deref h d = Some (Obj cs (Entries V kvs))"
    and "h' = h[d := Obj cs (Entries V (AList.update k v kvs))]"
  using assms
  by (auto simp: dict_setitem_def split: option.splits obj.splits body.splits if_splits)

lemma dict_delitem_Inr:
  assumes "dict_delitem h d k = (h', Inr u)"
  obtains cs V kvs where "deref h d = Some (Obj cs (Entries V kvs))"
    and "map_of kvs k \<noteq> None"
    and "h' = h[d := Obj cs (Entries V (AList.delete k kvs))]"
  using assms
  by (auto simp: dict_delitem_def split: option.splits obj.splits body.splits if_splits)

lemma list_items_Inr:
  assumes "list_items h l = (h', Inr xs)"
  obtains cs T where "h' = h" and "deref h l = Some (Obj cs (Items T xs))"
  using assms
  by (auto simp: list_items_def split: option.splits obj.splits body.splits)

lemma add_owner:
  assumes "Plugin_add p key c h = (h', Inr r)"
  shows "owner_of h' c = Some (name p)"
proof -
  from assms obtain ha hb hc l u where
    att: "attach ha c (name p) = (hb, Inr u)" and
    gi: "dict_getitem hb (components p) key = (hc, Inr l)" and
    ap: "list_append hc l c = (h', Inr ())"
    unfolding Plugin_add_def
    by (elim andthen_Inr) auto
  from att obtain cs n ow where c: "deref ha c = Some (Obj cs (Named n ow))"
    and hb: "hb = ha[c := Obj cs (Named n (Some (name p)))]"
    by (rule attach_Inr)
  from gi have hc: "hc = hb" by (rule dict_getitem_Inr)
  from ap obtain lcs T xs where l: "deref hc l = Some (Obj lcs (Items T xs))"
    and h': "h' = hc[l := Obj lcs (Items T (xs @ [c]))]"
    by (rule list_append_Inr)
  have cb: "deref hb c = Some (Obj cs (Named n (Some (name p))))"
    using c hb by (simp add: deref_update_same)
  with l hc have "l \<noteq> c" by auto
  with cb h' hc have "deref h' c = Some (Obj cs (Named n (Some (name p))))"
    by (simp add: deref_update_other)
  then show ?thesis by (simp add: owner_of_def)
qed

subsection \<open>Components stay components\<close>

lemma is_component_mono:
  assumes "is_component h x" and "length h \<le> length h'"
    and "\<And>a. a < length h \<Longrightarrow> component_obj (h ! a) \<Longrightarrow> component_obj (h' ! a)"
  shows "is_component h' x"
  using assms by (auto simp: is_component_def deref_def split: if_splits)

lemma is_component_set_mono:
  assumes "is_component_set h l" and "deref h' l = deref h l"
    and "\<And>x. is_component h x \<Longrightarrow> is_component h' x"
  shows "is_component_set h' l"
proof -
  from assms(1) obtain cs xs where l: "deref h l = Some (Obj cs (Items (Some ''Component'') xs))"
    and cs: "''ComponentSet'' \<in> set cs" and xs: "\<forall>x\<in>set xs. is_component h x"
    by (rule is_component_setE)
  show ?thesis
    using l cs xs assms(2,3) by (intro is_component_setI [of h' l cs xs]) auto
qed

lemma set_update_subset: "set (AList.update k v al) \<subseteq> insert (k, v) (set al)"
  by (induction al) auto

lemma update_absent: "map_of al k = None \<Longrightarrow> AList.update k v al = al @ [(k, v)]"
  by (induction al) (auto split: if_splits)

lemma component_not_set: "is_component h x \<Longrightarrow> is_component_set h l \<Longrightarrow> x \<noteq> l"
  by (auto elim!: is_componentE is_component_setE)

lemma add_wf:
  assumes wf: "wf_plugin h self" and c: "is_component h c"
  shows "\<exists>h1. Plugin_add self key c h = (h1, Inr self) \<and> wf_plugin h1 self \<and>
           (\<forall>x. is_component h x \<longrightarrow> is_component h1 x) \<and>
           (\<forall>xs. get_items self key h = Inr xs \<longrightarrow> get_items self key h1 = Inr (xs @ [c]))"
proof -
  from wf obtain cs kvs where
    d: "deref h (components self) = Some (Obj cs (Entries (Some ''ComponentSet'') kvs))" and
    sets: "\<forall>kv\<in>set kvs. is_component_set h (snd kv)"
    by (rule wf_pluginE)
  from c obtain ccs n ow where cd: "deref h c = Some (Obj ccs (Named n ow))"
    and comp: "''Component'' \<in> set ccs"
    by (rule is_componentE)
  have lt: "components self < length h" "c < length h"
    using d cd by (auto simp: deref_Some_iff)
  have ne: "components self \<noteq> c"
    using d cd by auto
  show ?thesis
  proof (cases "map_of kvs key")
    case (Some l)
    then have "is_component_set h l"
      using sets by (rule map_of_is_component_set [rotated])
    then obtain lcs xs where l: "deref h l = Some (Obj lcs (Items (Some ''Component'') xs))"
      and lcs: "''ComponentSet'' \<in> set lcs" and xs: "\<forall>x\<in>set xs. is_component h x"
      by (rule is_component_setE)
    let ?h1 = "h[c := Obj ccs (Named n (Some (name self))),
                 l := Obj lcs (Items (Some ''Component'') (xs @ [c]))]"
    have nel: "l \<noteq> c" "l \<noteq> components self" "l < length h"
      using l cd d by (auto simp: deref_Some_iff)
    have sat: "satisfies h (Some ''Component'') c"
      using cd comp by (simp add: satisfies_def isinstance_def)
    have add: "Plugin_add self key c h = (?h1, Inr self)"
      by (simp add: add_present [OF d Some l cd] sat)
    have mono: "is_component ?h1 x" if "is_component h x" for x
      using that
    proof (rule is_component_mono)
      fix a assume "a < length h" "component_obj (h ! a)"
      then show "component_obj (?h1 ! a)"
        using l cd comp by (auto simp: nth_list_update deref_Some_iff)
    qed simp
    have d1: "deref ?h1 (components self) = Some (Obj cs (Entries (Some ''ComponentSet'') kvs))"
      using d ne nel by (simp add: deref_update_other)
    have l1: "deref ?h1 l = Some (Obj lcs (Items (Some ''Component'') (xs @ [c])))"
      using nel by (simp add: deref_update)
    have sets1: "is_component_set ?h1 (snd kv)" if "kv \<in> set kvs" for kv
    proof (cases "snd kv = l")
      case True
      show ?thesis
        unfolding True using l1 lcs xs c mono by (intro is_component_setI [OF l1]) auto
    next
      case False
      have s: "is_component_set h (snd kv)" using sets that by blast
      then have "snd kv \<noteq> c" using c by (auto dest: component_not_set)
      with False have "deref ?h1 (snd kv) = deref h (snd kv)"
        by (simp add: deref_update_other)
      with s show ?thesis using mono by (rule is_component_set_mono)
    qed
    have "wf_plugin ?h1 self"
      using d1 sets1 by (intro wf_pluginI [OF d1]) auto
    moreover have "get_items self key h = Inr xs"
      using d Some l by (rule get_items_present)
    moreover have "get_items self key ?h1 = Inr (xs @ [c])"
      using d1 Some l1 by (rule get_items_present)
    ultimately show ?thesis
      using add mono by auto
  next
    case None
    let ?S = "Obj [''ComponentSet'', ''TypeConstrainedList''] (Items (Some ''Component'') [c])"
    let ?kvs = "AList.update key (length h) kvs"
    let ?h1 = "(h @ [?S])
                 [components self := Obj cs (Entries (Some ''ComponentSet'') ?kvs),
                  c := Obj ccs (Named n (Some (name self)))]"
    have add: "Plugin_add self key c h = (?h1, Inr self)"
      by (simp add: add_absent [OF d None cd] comp)
    have mono: "is_component ?h1 x" if "is_component h x" for x
      using that
    proof (rule is_component_mono)
      fix a assume "a < length h" "component_obj (h ! a)"
      then show "component_obj (?h1 ! a)"
        using d cd comp lt by (auto simp: nth_list_update nth_append deref_Some_iff)
    qed simp
    have d1: "deref ?h1 (components self) = Some (Obj cs (Entries (Some ''ComponentSet'') ?kvs))"
      using ne lt by (simp add: deref_update)
    have n1: "deref ?h1 (length h) = Some ?S"
      using lt by (simp add: deref_update deref_snoc_new)
    have new: "is_component_set ?h1 (length h)"
      using c mono by (intro is_component_setI [OF n1]) auto
    have sets1: "is_component_set ?h1 (snd kv)" if "kv \<in> set ?kvs" for kv
    proof (cases "snd kv = length h")
      case True
      then show ?thesis using new by simp
    next
      case False
      have "kv \<in> set kvs \<or> kv = (key, length h)"
        using that set_update_subset [of key "length h" kvs] by auto
      with False have kv: "kv \<in> set kvs" by auto
      then have s: "is_component_set h (snd kv)" using sets by blast
      then have "snd kv \<noteq> c" using c by (auto dest: component_not_set)
      moreover have "snd kv \<noteq> components self"
        using s d by (auto elim!: is_component_setE)
      moreover have "snd kv < length h"
        using s by (auto elim!: is_component_setE simp: deref_Some_iff)
      ultimately have "deref ?h1 (snd kv) = deref h (snd kv)"
        by (simp add: deref_update_other deref_append)
      with s show ?thesis using mono by (rule is_component_set_mono)
    qed
    have "wf_plugin ?h1 self"
      using d1 sets1 by (intro wf_pluginI [OF d1]) auto
    moreover have "get_items self key h = Inr []"
      using d None by (rule get_items_absent)
    moreover have "get_items self key ?h1 = Inr [c]"
      by (rule get_items_present [OF d1 _ n1]) (simp add: update_conv')
    ultimately show ?thesis
      using add mono by auto
  qed
qed

subsection \<open>What filter builds\<close>

lemma any_isinstance_iff: "any_isinstance h c xs \<longleftrightarrow> (\<exists>x\<in>set xs. isinstance h x c)"
  by (induction xs) auto

lemma items_at_eq: "deref h l = Some (Obj cs (Items T xs)) \<Longrightarrow> items_at h l = xs"
  by (simp add: items_at_def)

lemma comprehension_filter:
  assumes "\<forall>kv\<in>set kvs. \<exists>cs T xs. deref h (snd kv) = Some (Obj cs (Items T xs))"
  shows "comprehension h c kvs =
     Inr (filter (\<lambda>kv. \<exists>x\<in>set (items_at h (snd kv)). isinstance h x c) kvs)"
  using assms
proof (induction kvs)
  case Nil
  then show ?case by simp
next
  case (Cons kv kvs)
  obtain k l where kv: "kv = (k, l)" by (cases kv)
  from Cons.prems kv obtain cs T xs where l: "deref h l = Some (Obj cs (Items T xs))"
    by auto
  from Cons have "comprehension h c kvs =
     Inr (filter (\<lambda>kv. \<exists>x\<in>set (items_at h (snd kv)). isinstance h x c) kvs)"
    by simp
  then show ?case
    by (simp add: kv list_items_at [OF l] items_at_eq [OF l] any_isinstance_iff)
qed

lemma items_at_append: "a < length h \<Longrightarrow> items_at (h @ ext) a = items_at h a"
  by (simp add: items_at_def deref_append)

subsection \<open>The first element with a given name\<close>

lemma next_named_first:
  assumes "\<forall>y\<in>set ys. \<exists>m. name_of h y = Inr m \<and> m \<noteq> n" and "name_of h c = Inr n"
  shows "next_named h n (ys @ c # zs) = Inr c"
  using assms by (induction ys) auto

lemma remove1_first: "c \<notin> set ys \<Longrightarrow> remove1 c (ys @ c # zs) = ys @ zs"
  by (induction ys) auto

subsection \<open>The invariant of \<^verbatim>\<open>deepcopy\<close>\<close>

lemma take_prefix_length: "take (length h0) h = h0 \<Longrightarrow> length h0 \<le> length h"
  by (metis length_take min.cobounded1)

lemma take_prefix_nth: "take n h = h0 \<Longrightarrow> x < length h0 \<Longrightarrow> h ! x = h0 ! x"
  by (metis nth_take length_take min_less_iff_conj)

lemma take_prefix_deref:
  assumes "take (length h0) h = h0" and "x < length h0"
  shows "deref h x = deref h0 x"
proof -
  have "length h0 \<le> length h"
    using assms(1) by (rule take_prefix_length)
  moreover have "h ! x = h0 ! x"
    using assms by (rule take_prefix_nth)
  ultimately show ?thesis
    using assms(2) by (simp add: deref_def)
qed

lemma faithful_stable:
  assumes "faithful h0 h m x y" and "deref h' y = deref h y"
    and "\<And>z w. map_of m z = Some w \<Longrightarrow> map_of m' z = Some w"
  shows "faithful h0 h' m' x y"
proof -
  from assms(1) obtain ob where ob: "deref h0 x = Some ob"
    and dom: "\<forall>z\<in>set (children (body ob)). map_of m z \<noteq> None"
    and y: "deref h y = Some (Obj (classes ob)
        (refill (body ob) (map (\<lambda>z. the (map_of m z)) (children (body ob)))))"
    by (auto simp: faithful_def split: option.splits)
  have same: "map_of m' z = map_of m z" if "z \<in> set (children (body ob))" for z
    using dom that assms(3) by fastforce
  have eq: "map (\<lambda>z. the (map_of m' z)) (children (body ob))
      = map (\<lambda>z. the (map_of m z)) (children (body ob))"
    using same by simp
  have dom': "\<forall>z\<in>set (children (body ob)). map_of m' z \<noteq> None"
    using dom same by simp
  show ?thesis
    unfolding faithful_def using ob dom' y assms(2) by (simp add: eq)
qed

lemma copying_prefix: "copying P h0 (h, m) \<Longrightarrow> take (length h0) h = h0"
  by (simp add: copying_def)

lemma copying_range:
  "copying P h0 (h, m) \<Longrightarrow> map_of m x = Some y \<Longrightarrow> x < length h0 \<and> length h0 \<le> y \<and> y < length h"
  by (simp add: copying_def)

lemma copying_inj:
  "copying P h0 (h, m) \<Longrightarrow> map_of m x = Some y \<Longrightarrow> map_of m x' = Some y \<Longrightarrow> x = x'"
  unfolding copying_def fst_conv snd_conv by (elim conjE) (erule allE [of _ x], erule allE [of _ x'], erule allE [of _ y], simp)

lemma copying_faithful:
  "copying P h0 (h, m) \<Longrightarrow> map_of m x = Some y \<Longrightarrow> x \<notin> P \<Longrightarrow> faithful h0 h m x y"
  by (simp add: copying_def)

lemma copying_pending: "copying P h0 (h, m) \<Longrightarrow> P \<subseteq> dom (map_of m)"
  by (simp add: copying_def)

lemma copyingI:
  assumes "take (length h0) h = h0"
    and "\<And>x y. map_of m x = Some y \<Longrightarrow> x < length h0 \<and> length h0 \<le> y \<and> y < length h"
    and "\<And>x x' y. map_of m x = Some y \<Longrightarrow> map_of m x' = Some y \<Longrightarrow> x = x'"
    and "\<And>x y. map_of m x = Some y \<Longrightarrow> x \<notin> P \<Longrightarrow> faithful h0 h m x y"
    and "P \<subseteq> dom (map_of m)"
  shows "copying P h0 (h, m)"
  unfolding copying_def fst_conv snd_conv
proof (intro conjI)
  show "take (length h0) h = h0" by fact
  show "\<forall>x y. map_of m x = Some y \<longrightarrow> x < length h0 \<and> length h0 \<le> y \<and> y < length h"
    using assms(2) by blast
  show "\<forall>x x' y. map_of m x = Some y \<longrightarrow> map_of m x' = Some y \<longrightarrow> x = x'"
    using assms(3) by blast
  show "\<forall>x y. map_of m x = Some y \<longrightarrow> x \<notin> P \<longrightarrow> faithful h0 h m x y"
    using assms(4) by blast
  show "P \<subseteq> dom (map_of m)" by fact
qed

lemma copying_push:
  assumes inv: "copying P h0 (h, m)" and new: "map_of m x = None" and x: "x < length h0"
  shows "copying (insert x P) h0 (h @ [ob], (x, length h) # m)"
proof -
  note pre = copying_prefix [OF inv] and rng = copying_range [OF inv]
    and inj = copying_inj [OF inv] and fai = copying_faithful [OF inv]
    and pen = copying_pending [OF inv]
  have len: "length h0 \<le> length h"
    using pre by (rule take_prefix_length)
  have 1: "take (length h0) (h @ [ob]) = h0"
    using pre len by simp
  have 2: "z < length h0 \<and> length h0 \<le> w \<and> w < length (h @ [ob])"
    if "map_of ((x, length h) # m) z = Some w" for z w
    using that x len rng [of z w] by (auto split: if_splits)
  have 3: "z = z'"
    if "map_of ((x, length h) # m) z = Some w" "map_of ((x, length h) # m) z' = Some w"
    for z z' w
    using that rng [of z w] rng [of z' w] inj [of z w z'] by (auto split: if_splits)
  have 4: "faithful h0 (h @ [ob]) ((x, length h) # m) z w"
    if "map_of ((x, length h) # m) z = Some w" "z \<notin> insert x P" for z w
  proof -
    from that have zw: "map_of m z = Some w" and "z \<notin> P" by (auto split: if_splits)
    then have "faithful h0 h m z w" by (rule fai)
    moreover have "deref (h @ [ob]) w = deref h w"
      using rng [OF zw] by (simp add: deref_append)
    moreover have "map_of ((x, length h) # m) u = Some v" if "map_of m u = Some v" for u v
      using that new by auto
    ultimately show ?thesis by (rule faithful_stable)
  qed
  have 5: "insert x P \<subseteq> dom (map_of ((x, length h) # m))"
    using pen by auto
  show ?thesis
    using 1 2 3 4 5 by (rule copyingI)
qed

lemma copying_pop:
  assumes inv: "copying (insert x P) h0 (h, m)" and y: "map_of m x = Some y"
    and ob: "deref h0 x = Some (Obj cs b)"
    and dom: "\<forall>z\<in>set (children b). map_of m z \<noteq> None"
  shows "copying P h0 (h[y := Obj cs (refill b (map (\<lambda>z. the (map_of m z)) (children b)))], m)"
proof -
  let ?h = "h[y := Obj cs (refill b (map (\<lambda>z. the (map_of m z)) (children b)))]"
  note pre = copying_prefix [OF inv] and rng = copying_range [OF inv]
    and inj = copying_inj [OF inv] and fai = copying_faithful [OF inv]
    and pen = copying_pending [OF inv]
  have yr: "length h0 \<le> y" "y < length h"
    using rng [OF y] by auto
  have 1: "take (length h0) ?h = h0"
    using pre yr by (simp add: take_update_cancel)
  have 2: "z < length h0 \<and> length h0 \<le> w \<and> w < length ?h" if "map_of m z = Some w" for z w
    using rng [OF that] by simp
  have 4: "faithful h0 ?h m z w" if zw: "map_of m z = Some w" and "z \<notin> P" for z w
  proof (cases "z = x")
    case True
    then have "w = y" using zw y by simp
    then show ?thesis
      using True ob dom yr by (simp add: faithful_def deref_update)
  next
    case False
    then have "faithful h0 h m z w" using that by (intro fai) auto
    moreover have "w \<noteq> y" using inj [OF zw, of x] y False by auto
    then have "deref ?h w = deref h w" by (simp add: deref_update_other)
    ultimately show ?thesis by (rule faithful_stable)
  qed
  have 5: "P \<subseteq> dom (map_of m)"
    using pen by auto
  show ?thesis
    using 1 2 inj 4 5 by (rule copyingI)
qed

lemma deepcopy_copying:
  "copying P h0 s \<Longrightarrow> depth_le k h0 x \<Longrightarrow> k \<le> d \<Longrightarrow>
     \<exists>s' y. deepcopy d x s = (s', Inr y) \<and> copying P h0 s' \<and> map_of (snd s') x = Some y \<and>
       (\<forall>z w. map_of (snd s) z = Some w \<longrightarrow> map_of (snd s') z = Some w)"
  and "copying P h0 s \<Longrightarrow> \<forall>x\<in>set xs. depth_le k h0 x \<Longrightarrow> k \<le> d \<Longrightarrow>
     \<exists>s' ys. deepcopy_each d xs s = (s', Inr ys) \<and> copying P h0 s' \<and>
       ys = map (\<lambda>z. the (map_of (snd s') z)) xs \<and>
       (\<forall>z\<in>set xs. map_of (snd s') z \<noteq> None) \<and>
       (\<forall>z w. map_of (snd s) z = Some w \<longrightarrow> map_of (snd s') z = Some w)"
proof (induct d x s and d xs s arbitrary: P k and P k rule: deepcopy_deepcopy_each.induct)
  case (1 x h m)
  then show ?case by simp
next
  case (2 d x h m)
  from "2.prems" obtain k' where k: "k = Suc k'" and k': "k' \<le> d"
    by (cases k) auto
  from "2.prems"(2) k obtain ob where ob0: "deref h0 x = Some ob"
    and mutable: "body ob \<noteq> Atomic"
    and kids: "\<forall>z\<in>set (children (body ob)). depth_le k' h0 z"
    by (auto simp: list_all_iff split: option.splits)
  obtain cs b where ob: "ob = Obj cs b" by (cases ob)
  have b: "b \<noteq> Atomic"
    using mutable ob by simp
  have x: "x < length h0"
    using ob0 by (simp add: deref_Some_iff)
  have pre: "take (length h0) h = h0"
    using "2.prems"(1) by (simp add: copying_def)
  have hx: "deref h x = Some (Obj cs b)"
    using take_prefix_deref [OF pre x] ob0 ob by simp
  show ?case
  proof (cases "map_of m x")
    case (Some y)
    then show ?thesis
      using "2.prems"(1) by simp
  next
    case None
    let ?s0 = "(h @ [Obj cs (hollow b)], (x, length h) # m)"
    have inv0: "copying (insert x P) h0 ?s0"
      using "2.prems"(1) None x by (rule copying_push)
    from "2.hyps" [OF None hx refl b inv0 _ k'] kids ob
    obtain s' ys where
      each: "deepcopy_each d (children b) ?s0 = (s', Inr ys)" and
      inv': "copying (insert x P) h0 s'" and
      ys: "ys = map (\<lambda>z. the (map_of (snd s') z)) (children b)" and
      dom: "\<forall>z\<in>set (children b). map_of (snd s') z \<noteq> None" and
      mono: "\<forall>z w. map_of (snd ?s0) z = Some w \<longrightarrow> map_of (snd s') z = Some w"
      by auto
    obtain h' m' where s': "s' = (h', m')" by (cases s')
    have mx: "map_of m' x = Some (length h)"
      using mono s' by simp
    have inv'': "copying P h0 (h'[length h := Obj cs (refill b ys)], m')"
      unfolding ys s' snd_conv
      using inv' mx ob0 dom unfolding s' ob snd_conv by (rule copying_pop)
    have mono': "\<forall>z w. map_of m z = Some w \<longrightarrow> map_of m' z = Some w"
    proof (intro allI impI)
      fix z w assume zw: "map_of m z = Some w"
      then have "z \<noteq> x" using None by auto
      then have "map_of (snd ?s0) z = Some w" using zw by simp
      then show "map_of m' z = Some w" using mono s' by auto
    qed
    have "deepcopy (Suc d) x (h, m) = ((h'[length h := Obj cs (refill b ys)], m'), Inr (length h))"
      using None hx b each s' by simp
    then show ?thesis
      using inv'' mx mono' by simp
  qed
next
  case (3 d s)
  then show ?case by simp
next
  case (4 d x xs s)
  from "4.hyps"(1) [OF "4.prems"(1) _ "4.prems"(3)] "4.prems"(2)
  obtain s1 y where
    one: "deepcopy d x s = (s1, Inr y)" and inv1: "copying P h0 s1" and
    y: "map_of (snd s1) x = Some y" and
    mono1: "\<forall>z w. map_of (snd s) z = Some w \<longrightarrow> map_of (snd s1) z = Some w"
    by auto
  from "4.hyps"(2) [OF one [symmetric] refl inv1 _ "4.prems"(3)] "4.prems"(2)
  obtain s2 ys where
    rest: "deepcopy_each d xs s1 = (s2, Inr ys)" and inv2: "copying P h0 s2" and
    ys: "ys = map (\<lambda>z. the (map_of (snd s2) z)) xs" and
    dom: "\<forall>z\<in>set xs. map_of (snd s2) z \<noteq> None" and
    mono2: "\<forall>z w. map_of (snd s1) z = Some w \<longrightarrow> map_of (snd s2) z = Some w"
    by auto
  have y2: "map_of (snd s2) x = Some y"
    using y mono2 by blast
  have "deepcopy_each d (x # xs) s = (s2, Inr (y # ys))"
    using one rest by simp
  then show ?case
    using inv2 ys dom y2 mono1 mono2 by auto
qed

subsection \<open>Copying a well-formed plugin\<close>

lemma depth_le_SucI:
  "deref h x = Some (Obj cs b) \<Longrightarrow> b \<noteq> Atomic \<Longrightarrow> \<forall>z\<in>set (children b). depth_le k h z \<Longrightarrow>
   depth_le (Suc k) h x"
  by (simp add: list_all_iff)

lemma component_depth: "is_component h x \<Longrightarrow> depth_le (Suc 0) h x"
  by (erule is_componentE) (rule depth_le_SucI, assumption, simp, simp)

lemma component_set_depth: "is_component_set h l \<Longrightarrow> depth_le (Suc (Suc 0)) h l"
  by (erule is_component_setE) (rule depth_le_SucI, assumption, simp, simp add: component_depth del: depth_le.simps)

lemma wf_plugin_depth: "wf_plugin h self \<Longrightarrow> depth_le (Suc (Suc (Suc 0))) h (components self)"
  by (erule wf_pluginE) (rule depth_le_SucI, assumption, simp, simp add: component_set_depth del: depth_le.simps)

lemma copying_start: "copying {} h (h, [])"
  by (simp add: copying_def)

lemma Plugin_copy_wf:
  assumes wf: "wf_plugin h self" and mo: "deref h (model self) = Some (Obj mcs Opaque)"
  shows "\<exists>h' m mo co.
     Plugin_copy (Suc (Suc (Suc (Suc d)))) self h =
       (h', Inr \<lparr>model = mo, name = name self, version = version self, components = co\<rparr>) \<and>
     copying {} h (h', m) \<and> map_of m (model self) = Some mo \<and>
     map_of m (components self) = Some co"
proof -
  let ?D = "Suc (Suc (Suc d))"
  have dm: "depth_le (Suc 0) h (model self)"
    using mo by (rule depth_le_SucI) simp_all
  from deepcopy_copying(1) [OF copying_start dm, of ?D]
  obtain s1 y1 where
    c1: "deepcopy ?D (model self) (h, []) = (s1, Inr y1)" and inv1: "copying {} h s1" and
    m1: "map_of (snd s1) (model self) = Some y1"
    by auto
  from deepcopy_copying(1) [OF inv1 wf_plugin_depth [OF wf], of ?D]
  obtain s2 y2 where
    c2: "deepcopy ?D (components self) s1 = (s2, Inr y2)" and inv2: "copying {} h s2" and
    m2: "map_of (snd s2) (components self) = Some y2" and
    mono: "\<forall>z w. map_of (snd s1) z = Some w \<longrightarrow> map_of (snd s2) z = Some w"
    by auto
  obtain h1 mm1 where s1: "s1 = (h1, mm1)" by (cases s1)
  obtain h2 mm2 where s2: "s2 = (h2, mm2)" by (cases s2)
  have "Plugin_copy (Suc ?D) self h =
      (h2, Inr \<lparr>model = y1, name = name self, version = version self, components = y2\<rparr>)"
    using c1 c2 s1 s2 by simp
  moreover have "map_of mm2 (model self) = Some y1"
    using m1 mono s2 by simp
  ultimately show ?thesis
    using inv2 m2 s2 by auto
qed

lemma zip_fst_comp_snd: "zip (map fst kvs) (map (f \<circ> snd) kvs) = map (\<lambda>kv. (fst kv, f (snd kv))) kvs"
  by (induction kvs) auto

lemma faithfulD:
  assumes "faithful h0 h m x y" and "deref h0 x = Some (Obj cs b)"
  shows "deref h y = Some (Obj cs (refill b (map (\<lambda>z. the (map_of m z)) (children b))))"
    and "\<forall>z\<in>set (children b). map_of m z \<noteq> None"
  using assms by (auto simp: faithful_def)

lemma copied:
  assumes inv: "copying {} h0 (h, m)" and "map_of m x \<noteq> None"
  shows "faithful h0 h m x (the (map_of m x))"
  using assms by (auto intro: copying_faithful)

lemma copy_of_component:
  assumes inv: "copying {} h0 (h, m)" and x: "is_component h0 x" and dom: "map_of m x \<noteq> None"
  shows "deref h (the (map_of m x)) = deref h0 x"
proof -
  from x obtain cs n ow where ob: "deref h0 x = Some (Obj cs (Named n ow))"
    by (rule is_componentE)
  from faithfulD(1) [OF copied [OF inv dom] ob] ob show ?thesis by simp
qed

lemma copy_of_component_set:
  assumes inv: "copying {} h0 (h, m)" and l: "is_component_set h0 l" and dom: "map_of m l \<noteq> None"
  shows "set_view h (the (map_of m l)) = set_view h0 l"
    and "items_at h (the (map_of m l)) = map (\<lambda>z. the (map_of m z)) (items_at h0 l)"
    and "\<forall>z\<in>set (items_at h0 l). map_of m z \<noteq> None"
proof -
  from l obtain cs xs where ob: "deref h0 l = Some (Obj cs (Items (Some ''Component'') xs))"
    and xs: "\<forall>x\<in>set xs. is_component h0 x"
    by (rule is_component_setE)
  note f = faithfulD [OF copied [OF inv dom] ob]
  have c: "deref h (the (map_of m l)) =
      Some (Obj cs (Items (Some ''Component'') (map (\<lambda>z. the (map_of m z)) xs)))"
    using f(1) by simp
  have d: "\<forall>z\<in>set xs. map_of m z \<noteq> None"
    using f(2) by simp
  have "map (deref h) (map (\<lambda>z. the (map_of m z)) xs) = map (deref h0) xs"
    using xs d by (simp add: copy_of_component [OF inv])
  then show "set_view h (the (map_of m l)) = set_view h0 l"
    using c ob by (simp add: set_view_def)
  show "items_at h (the (map_of m l)) = map (\<lambda>z. the (map_of m z)) (items_at h0 l)"
    using c ob by (simp add: items_at_def)
  show "\<forall>z\<in>set (items_at h0 l). map_of m z \<noteq> None"
    using d ob by (simp add: items_at_def)
qed


lemma copy_of_plugin:
  assumes inv: "copying {} h0 (h, m)" and wf: "wf_plugin h0 self"
    and mo: "deref h0 (model self) = Some (Obj mcs Opaque)"
    and mm: "map_of m (model self) = Some mo" and mc: "map_of m (components self) = Some co"
  shows "view h \<lparr>model = mo, name = name self, version = version self, components = co\<rparr>
           = view h0 self"
    and "\<forall>a\<in>set (footprint h
            \<lparr>model = mo, name = name self, version = version self, components = co\<rparr>).
           length h0 \<le> a \<and> a < length h"
proof -
  let ?f = "\<lambda>z. the (map_of m z)"
  from wf obtain cs kvs where
    d: "deref h0 (components self) = Some (Obj cs (Entries (Some ''ComponentSet'') kvs))" and
    sets: "\<forall>kv\<in>set kvs. is_component_set h0 (snd kv)"
    by (rule wf_pluginE)
  have fd: "faithful h0 h m (components self) co"
    using copied [OF inv, of "components self"] mc by simp
  note f = faithfulD [OF fd d]
  have dc: "deref h co =
      Some (Obj cs (Entries (Some ''ComponentSet'') (map (\<lambda>kv. (fst kv, ?f (snd kv))) kvs)))"
    using f(1) by (simp add: zip_fst_comp_snd)
  have dom: "\<forall>kv\<in>set kvs. map_of m (snd kv) \<noteq> None"
    using f(2) by simp
  have fm: "faithful h0 h m (model self) mo"
    using copied [OF inv, of "model self"] mm by simp
  have dm: "deref h mo = deref h0 (model self)"
    using faithfulD(1) [OF fm mo] mo by simp
  have sv: "set_view h (?f (snd kv)) = set_view h0 (snd kv)" if "kv \<in> set kvs" for kv
  proof -
    have l: "is_component_set h0 (snd kv)" using that sets by blast
    have dl: "map_of m (snd kv) \<noteq> None" using that dom by blast
    show ?thesis using inv l dl by (rule copy_of_component_set(1))
  qed
  show "view h \<lparr>model = mo, name = name self, version = version self, components = co\<rparr>
           = view h0 self"
    using dc d dm sv by (simp add: view_def)
  have rng: "length h0 \<le> ?f z \<and> ?f z < length h" if "map_of m z \<noteq> None" for z
    using that copying_range [OF inv, of z "?f z"] by auto
  have vals: "values_at h co = map (\<lambda>kv. ?f (snd kv)) kvs"
    using dc by (simp add: values_at_def comp_def)
  have its: "items_at h (?f (snd kv)) = map ?f (items_at h0 (snd kv))
       \<and> (\<forall>z\<in>set (items_at h0 (snd kv)). map_of m z \<noteq> None)"
    if "kv \<in> set kvs" for kv
  proof -
    have l: "is_component_set h0 (snd kv)" using that sets by blast
    have dl: "map_of m (snd kv) \<noteq> None" using that dom by blast
    from copy_of_component_set(2) [OF inv l dl] copy_of_component_set(3) [OF inv l dl]
    show ?thesis by (rule conjI)
  qed
  show "\<forall>a\<in>set (footprint h
            \<lparr>model = mo, name = name self, version = version self, components = co\<rparr>).
           length h0 \<le> a \<and> a < length h"
  proof
    fix a
    assume "a \<in> set (footprint h
        \<lparr>model = mo, name = name self, version = version self, components = co\<rparr>)"
    then have "a = mo \<or> a = co \<or> (\<exists>kv\<in>set kvs. a = ?f (snd kv))
        \<or> (\<exists>kv\<in>set kvs. a \<in> set (items_at h (?f (snd kv))))"
      by (simp add: footprint_def vals) blast
    then consider "a = mo" | "a = co" | kv where "kv \<in> set kvs" "a = ?f (snd kv)"
      | kv where "kv \<in> set kvs" "a \<in> set (items_at h (?f (snd kv)))"
      by blast
    then show "length h0 \<le> a \<and> a < length h"
    proof cases
      case 1
      then show ?thesis using copying_range [OF inv mm] by simp
    next
      case 2
      then show ?thesis using copying_range [OF inv mc] by simp
    next
      case 3
      then show ?thesis using rng dom by auto
    next
      case 4
      then obtain z where "z \<in> set (items_at h0 (snd kv))" "a = ?f z" "map_of m z \<noteq> None"
        using its [OF 4(1)] by auto
      then show ?thesis using rng by auto
    qed
  qed
qed

lemma footprint_original:
  assumes wf: "wf_plugin h self" and mo: "deref h (model self) = Some (Obj mcs Opaque)"
  shows "\<forall>a\<in>set (footprint h self). a < length h"
proof -
  from wf obtain cs kvs where
    d: "deref h (components self) = Some (Obj cs (Entries (Some ''ComponentSet'') kvs))" and
    sets: "\<forall>kv\<in>set kvs. is_component_set h (snd kv)"
    by (rule wf_pluginE)
  have vals: "values_at h (components self) = map snd kvs"
    using d by (simp add: values_at_def)
  have l: "snd kv < length h \<and> (\<forall>x\<in>set (items_at h (snd kv)). x < length h)"
    if "kv \<in> set kvs" for kv
  proof -
    from that sets have "is_component_set h (snd kv)" by blast
    then obtain lcs xs where
      ob: "deref h (snd kv) = Some (Obj lcs (Items (Some ''Component'') xs))" and
      xs: "\<forall>x\<in>set xs. is_component h x"
      by (rule is_component_setE)
    have "x < length h" if "x \<in> set xs" for x
      using xs that by (auto elim!: is_componentE simp: deref_Some_iff)
    moreover have "items_at h (snd kv) = xs"
      using ob by (simp add: items_at_def)
    moreover have "snd kv < length h"
      using ob by (simp add: deref_Some_iff)
    ultimately show ?thesis by simp
  qed
  show ?thesis
    using d mo l by (auto simp: footprint_def vals deref_Some_iff)
qed

subsection \<open>What is observed of a plugin depends on its own objects only\<close>

lemma view_frame:
  assumes "\<forall>a\<in>set (footprint h self). deref h1 a = deref h a"
  shows "view h1 self = view h self" and "footprint h1 self = footprint h self"
proof -
  have m: "deref h1 (model self) = deref h (model self)"
    and d: "deref h1 (components self) = deref h (components self)"
    using assms by (simp_all add: footprint_def)
  have vals: "values_at h1 (components self) = values_at h (components self)"
    using d by (simp add: values_at_def)
  have l: "deref h1 l = deref h l" if "l \<in> set (values_at h (components self))" for l
    using that assms by (simp add: footprint_def)
  have it: "items_at h1 l = items_at h l" if "l \<in> set (values_at h (components self))" for l
    using l [OF that] by (simp add: items_at_def)
  have x: "deref h1 x = deref h x"
    if "l \<in> set (values_at h (components self))" "x \<in> set (items_at h l)" for l x
    using that assms by (auto simp: footprint_def)
  have sv: "set_view h1 l = set_view h l" if "l \<in> set (values_at h (components self))" for l
  proof (cases "deref h l")
    case None
    then show ?thesis using l [OF that] by (simp add: set_view_def)
  next
    case (Some ob)
    obtain cs b where ob: "ob = Obj cs b" by (cases ob)
    show ?thesis
    proof (cases b)
      case (Items T xs)
      then have "items_at h l = xs" using Some ob by (simp add: items_at_def)
      then have "map (deref h1) xs = map (deref h) xs"
        using x [OF that] by simp
      then show ?thesis
        using Some ob Items l [OF that] by (simp add: set_view_def)
    qed (use Some ob l [OF that] in \<open>simp_all add: set_view_def\<close>)
  qed
  show "footprint h1 self = footprint h self"
    using vals it by (simp add: footprint_def cong: map_cong)
  show "view h1 self = view h self"
  proof (cases "deref h (components self)")
    case None
    then show ?thesis using d by (simp add: view_def)
  next
    case (Some ob)
    obtain cs b where ob: "ob = Obj cs b" by (cases ob)
    show ?thesis
    proof (cases b)
      case (Entries V kvs)
      then have "values_at h (components self) = map snd kvs"
        using Some ob by (simp add: values_at_def)
      then have "map (\<lambda>kv. (fst kv, set_view h1 (snd kv))) kvs
          = map (\<lambda>kv. (fst kv, set_view h (snd kv))) kvs"
        using sv by simp
      then show ?thesis
        using Some ob Entries d m by (simp add: view_def)
    qed (use Some ob d in \<open>simp_all add: view_def\<close>)
  qed
qed

subsection \<open>Where the operations write\<close>

lemma andthen_cases:
  assumes "andthen m f = (h', r)"
  obtains (fail) e where "m = (h', Inl e)" and "r = Inl e"
    | (ok) h1 x where "m = (h1, Inr x)" and "f x h1 = (h', r)"
  using assms by (cases m; cases "snd m") auto

lemma dict_entries_reads: "dict_entries h d = (h', r) \<Longrightarrow> h' = h"
  by (auto simp: dict_entries_def split: option.splits obj.splits body.splits)

lemma dict_contains_reads: "dict_contains h d k = (h', r) \<Longrightarrow> h' = h"
  unfolding dict_contains_def
  by (erule andthen_cases) (auto dest: dict_entries_reads)

lemma dict_getitem_reads: "dict_getitem h d k = (h', r) \<Longrightarrow> h' = h"
  unfolding dict_getitem_def
  by (erule andthen_cases) (auto dest: dict_entries_reads split: option.splits)

lemma list_items_reads: "list_items h l = (h', r) \<Longrightarrow> h' = h"
  by (auto simp: list_items_def split: option.splits obj.splits body.splits)

lemma dict_contains_Inr:
  assumes "dict_contains h d k = (h', Inr present)"
  obtains cs V kvs where "h' = h" and "deref h d = Some (Obj cs (Entries V kvs))"
    and "present = (map_of kvs k \<noteq> None)"
  using assms
  by (auto simp: dict_contains_def dict_entries_def
           split: option.splits obj.splits body.splits)

lemma attach_frame: "attach h c p = (h', r) \<Longrightarrow> a \<noteq> c \<Longrightarrow> deref h' a = deref h a"
  by (auto simp: attach_def deref_update_other split: option.splits obj.splits body.splits)

lemma dict_setitem_frame: "dict_setitem h d k v = (h', r) \<Longrightarrow> a \<noteq> d \<Longrightarrow> deref h' a = deref h a"
  by (auto simp: dict_setitem_def deref_update_other
           split: option.splits obj.splits body.splits if_splits)

lemma dict_delitem_frame: "dict_delitem h d k = (h', r) \<Longrightarrow> a \<noteq> d \<Longrightarrow> deref h' a = deref h a"
  by (auto simp: dict_delitem_def deref_update_other
           split: option.splits obj.splits body.splits if_splits)

lemma list_append_frame: "list_append h l x = (h', r) \<Longrightarrow> a \<noteq> l \<Longrightarrow> deref h' a = deref h a"
  by (auto simp: list_append_def deref_update_other
           split: option.splits obj.splits body.splits if_splits)

lemma list_remove_frame: "list_remove h l x = (h', r) \<Longrightarrow> a \<noteq> l \<Longrightarrow> deref h' a = deref h a"
  by (auto simp: list_remove_def deref_update_other
           split: option.splits obj.splits body.splits if_splits)

lemma except_ValueError_store: "except_ValueError m = (h', r) \<Longrightarrow> \<exists>r'. m = (h', r')"
  by (cases m; cases "snd m") (auto split: if_splits)

lemma value_in_footprint:
  "deref h (components self) = Some (Obj cs (Entries V kvs)) \<Longrightarrow> map_of kvs k = Some l \<Longrightarrow>
   l \<in> set (footprint h self)"
  by (auto simp: footprint_def values_at_def dest!: map_of_SomeD intro!: image_eqI [where x = "(k, l)"])

lemma add_frame:
  assumes add: "Plugin_add self key c h = (h1, r)"
    and a: "a \<notin> set (footprint h self)" "a \<noteq> c" "a < length h"
  shows "deref h1 a = deref h a"
proof -
  let ?d = "components self"
  have ad: "a \<noteq> ?d"
    using a(1) by (auto simp: footprint_def)
  from add show ?thesis
    unfolding Plugin_add_def
  proof (cases rule: andthen_cases)
    case (fail e)
    then show ?thesis by (auto dest: dict_contains_reads)
  next
    case (ok ha present)
    from ok(1) obtain cs V kvs where ha: "ha = h"
      and d: "deref h ?d = Some (Obj cs (Entries V kvs))"
      and present: "present = (map_of kvs key \<noteq> None)"
      by (rule dict_contains_Inr)
    let ?init = "if \<not> present
              then (let (h', s) = alloc ha ComponentSet in dict_setitem h' ?d key s)
              else (ha, Inr ())"
    have init_frame: "deref hb a = deref h a" if "?init = (hb, rb)" for hb rb
    proof (cases present)
      case True
      then show ?thesis using that ha by simp
    next
      case False
      then have "dict_setitem (h @ [ComponentSet]) ?d key (length h) = (hb, rb)"
        using that ha by (simp add: alloc_def)
      then have "deref hb a = deref (h @ [ComponentSet]) a"
        using ad by (rule dict_setitem_frame)
      then show ?thesis using a(3) by (simp add: deref_append)
    qed
    have init_dict: "\<exists>cs' V' kvs'. deref hb ?d = Some (Obj cs' (Entries V' kvs')) \<and>
        (\<forall>l. map_of kvs' key = Some l \<longrightarrow> l \<in> set (footprint h self) \<or> l = length h)"
      if "?init = (hb, Inr u)" for hb u
    proof (cases present)
      case True
      then have "hb = h" using that ha by simp
      then show ?thesis
        using d by (auto intro: value_in_footprint)
    next
      case False
      then have s: "dict_setitem (h @ [ComponentSet]) ?d key (length h) = (hb, Inr u)"
        using that ha by (simp add: alloc_def)
      from s obtain cs' V' kvs' where
        "deref (h @ [ComponentSet]) ?d = Some (Obj cs' (Entries V' kvs'))" and
        hb: "hb = (h @ [ComponentSet])[?d := Obj cs' (Entries V' (AList.update key (length h) kvs'))]"
        by (rule dict_setitem_Inr)
      then have "deref hb ?d = Some (Obj cs' (Entries V' (AList.update key (length h) kvs')))"
        by (simp add: deref_update_same)
      then show ?thesis
        by (auto simp: update_conv')
    qed
    from ok(2) show ?thesis
    proof (cases rule: andthen_cases)
      case (fail e)
      then show ?thesis using init_frame by blast
    next
      case (ok hb u)
      note b = init_frame [OF ok(1)]
      from init_dict [OF ok(1)] obtain cs' V' kvs' where
        db: "deref hb ?d = Some (Obj cs' (Entries V' kvs'))" and
        lb: "\<And>l. map_of kvs' key = Some l \<Longrightarrow> l \<in> set (footprint h self) \<or> l = length h"
        by blast
      from ok(2) show ?thesis
      proof (cases rule: andthen_cases)
        case (fail e)
        then have "deref h1 a = deref hb a" using a(2) by (auto dest: attach_frame)
        then show ?thesis using b by simp
      next
        case (ok hc v)
        have c: "deref hc a = deref hb a"
          using ok(1) a(2) by (rule attach_frame)
        from ok(1) obtain ccs n ow where "deref hb c = Some (Obj ccs (Named n ow))"
          by (rule attach_Inr)
        with db have "?d \<noteq> c" by auto
        then have dc: "deref hc ?d = Some (Obj cs' (Entries V' kvs'))"
          using attach_frame [OF ok(1), of ?d] db by simp
        from ok(2) show ?thesis
        proof (cases rule: andthen_cases)
          case (fail e)
          then have "h1 = hc" by (auto dest: dict_getitem_reads)
          then show ?thesis using b c by simp
        next
          case (ok hd l)
          from ok(1) dc have hd: "hd = hc" and l: "map_of kvs' key = Some l"
            by (auto elim!: dict_getitem_Inr)
          from lb [OF l] a(1,3) have al: "a \<noteq> l" by auto
          from ok(2) have "\<exists>re. list_append hd l c = (h1, re)"
            by (cases rule: andthen_cases) auto
          then have "deref h1 a = deref hd a"
            using al by (auto dest: list_append_frame)
          then show ?thesis using b c hd by simp
        qed
      qed
    qed
  qed
qed


lemma remove_frame:
  assumes rm: "Plugin_remove self key n h = (h1, r)"
    and a: "a \<notin> set (footprint h self)"
  shows "deref h1 a = deref h a"
proof -
  let ?d = "components self"
  have ad: "a \<noteq> ?d"
    using a by (auto simp: footprint_def)
  from rm show ?thesis
    unfolding Plugin_remove_def
  proof (cases rule: andthen_cases)
    case (fail e)
    then show ?thesis by (auto dest: dict_contains_reads)
  next
    case (ok ha present)
    from ok(1) obtain cs V kvs where ha: "ha = h"
      and d: "deref h ?d = Some (Obj cs (Entries V kvs))"
      by (rule dict_contains_Inr)
    show ?thesis
    proof (cases present)
      case False
      then show ?thesis using ok(2) ha by simp
    next
      case True
      let ?named = "\<lambda>n. andthen (dict_getitem h ?d key) (\<lambda>l h.
               andthen (list_items h l) (\<lambda>xs h.
               andthen (h, next_named h n xs) (\<lambda>contrib h.
               andthen (dict_getitem h ?d key) (\<lambda>l' h.
               list_remove h l' contrib))))"
      have named: "deref hb a = deref h a" if "?named m = (hb, rb)" for m hb rb
        using that
      proof (cases rule: andthen_cases)
        case (fail e)
        then show ?thesis by (auto dest: dict_getitem_reads)
      next
        case (ok h2 l)
        from ok(1) have h2: "h2 = h" by (rule dict_getitem_reads)
        from ok(2) show ?thesis
        proof (cases rule: andthen_cases)
          case (fail e)
          then show ?thesis using h2 by (auto dest: list_items_reads)
        next
          case (ok h3 xs)
          from ok(1) have h3: "h3 = h" using h2 by (auto dest: list_items_reads)
          from ok(2) show ?thesis
          proof (cases rule: andthen_cases)
            case (fail e)
            then show ?thesis using h3 by simp
          next
            case (ok h4 contrib)
            then have h4: "h4 = h" using h3 by simp
            from ok(2) show ?thesis
            proof (cases rule: andthen_cases)
              case (fail e)
              then show ?thesis using h4 by (auto dest: dict_getitem_reads)
            next
              case (ok h5 l')
              from ok(1) d h4 have h5: "h5 = h" and l': "map_of kvs key = Some l'"
                by (auto elim!: dict_getitem_Inr)
              have "l' \<in> set (footprint h self)"
                using d l' by (rule value_in_footprint)
              with a have "a \<noteq> l'" by auto
              with ok(2) h5 show ?thesis by (auto dest: list_remove_frame)
            qed
          qed
        qed
      qed
      from ok(2) [unfolded ha] True have
        "andthen (case n of None \<Rightarrow> dict_delitem h ?d key
                  | Some m \<Rightarrow> except_ValueError (?named m)) (\<lambda>_ h. (h, Inr self)) = (h1, r)"
        by simp
      then obtain rb where
        body: "(case n of None \<Rightarrow> dict_delitem h ?d key
                | Some m \<Rightarrow> except_ValueError (?named m)) = (h1, rb)"
        by (cases rule: andthen_cases) auto
      show ?thesis
      proof (cases n)
        case None
        then show ?thesis using body ad by (auto dest: dict_delitem_frame)
      next
        case (Some m)
        then have "except_ValueError (?named m) = (h1, rb)" using body by simp
        then obtain r' where "?named m = (h1, r')"
          by (blast dest: except_ValueError_store)
        then show ?thesis by (rule named)
      qed
    qed
  qed
qed

lemma copy_wf:
  assumes inv: "copying {} h0 (h, m)" and wf: "wf_plugin h0 self"
    and mc: "map_of m (components self) = Some co"
  shows "wf_plugin h \<lparr>model = mo, name = n, version = v, components = co\<rparr>"
proof -
  let ?f = "\<lambda>z. the (map_of m z)"
  from wf obtain cs kvs where
    d: "deref h0 (components self) = Some (Obj cs (Entries (Some ''ComponentSet'') kvs))" and
    sets: "\<forall>kv\<in>set kvs. is_component_set h0 (snd kv)"
    by (rule wf_pluginE)
  have fd: "faithful h0 h m (components self) co"
    using copied [OF inv, of "components self"] mc by simp
  note f = faithfulD [OF fd d]
  have dc: "deref h co =
      Some (Obj cs (Entries (Some ''ComponentSet'') (map (\<lambda>kv. (fst kv, ?f (snd kv))) kvs)))"
    using f(1) by (simp add: zip_fst_comp_snd)
  have dom: "\<forall>kv\<in>set kvs. map_of m (snd kv) \<noteq> None"
    using f(2) by simp
  have "is_component_set h (?f (snd kv))" if "kv \<in> set kvs" for kv
  proof -
    have l: "is_component_set h0 (snd kv)" using that sets by blast
    have dl: "map_of m (snd kv) \<noteq> None" using that dom by blast
    from l obtain lcs xs where
      ob: "deref h0 (snd kv) = Some (Obj lcs (Items (Some ''Component'') xs))" and
      lcs: "''ComponentSet'' \<in> set lcs" and xs: "\<forall>x\<in>set xs. is_component h0 x"
      by (rule is_component_setE)
    note g = faithfulD [OF copied [OF inv dl] ob]
    have c: "deref h (?f (snd kv)) = Some (Obj lcs (Items (Some ''Component'') (map ?f xs)))"
      using g(1) by simp
    have "is_component h (?f x)" if "x \<in> set xs" for x
    proof -
      have "is_component h0 x" using that xs by blast
      moreover have "map_of m x \<noteq> None" using that g(2) by simp
      ultimately have "deref h (?f x) = deref h0 x" and "is_component h0 x"
        using copy_of_component [OF inv] by auto
      then show ?thesis by (simp add: is_component_def)
    qed
    then show ?thesis
      using lcs by (intro is_component_setI [OF c]) auto
  qed
  then show ?thesis
    by (intro wf_pluginI [of h _ cs "map (\<lambda>kv. (fst kv, ?f (snd kv))) kvs"])
      (auto simp: dc)
qed

lemma copy_example:
  "Plugin_copy 4 example_plugin populated_store = (copied_store, Inr example_clone)"
  by code_simp

subsection \<open>Removing a name that no element has\<close>

lemma next_named_StopIteration:
  "\<forall>x\<in>set xs. \<exists>m. name_of h x = Inr m \<and> m \<noteq> n \<Longrightarrow> next_named h n xs = Inl StopIteration"
  by (induction xs) auto

lemma remove_unmatched_name:
  assumes "deref h (components self) = Some (Obj cs (Entries V kvs))"
    and "map_of kvs key = Some l"
    and "deref h l = Some (Obj lcs (Items T xs))"
    and "\<forall>x\<in>set xs. \<exists>m. name_of h x = Inr m \<and> m \<noteq> n"
  shows "Plugin_remove self key (Some n) h = (h, Inl StopIteration)"
  using assms
  by (simp add: Plugin_remove_def dict_contains_at dict_getitem_at list_items_at
      next_named_StopIteration)

section \<open>The example store\<close>

lemma init_populated:
  "Plugin_init 0 ''p'' (Some ''1.0'') [(''cmds'', 1), (''cmds'', 2), (''assets'', 3)] example_store
     = (populated_store, Inr example_plugin)"
  by code_simp

lemma wf_populated: "wf_plugin populated_store example_plugin"
  by code_simp

lemma init_other:
  "Plugin_init 0 ''q'' None [] populated_store = (shared_store, Inr other_plugin)"
  by code_simp

section \<open>Claims\<close>

text \<open>
  C1. The claim: removing from an existing key a name that matches no component of the key's
  set fails with \<^verbatim>\<open>ValueError\<close> and leaves the plugin unchanged. The code leaves the store
  unchanged, but the exception is not \<^verbatim>\<open>ValueError\<close>: \<^verbatim>\<open>next\<close> on the exhausted generator
  raises \<^verbatim>\<open>StopIteration\<close>, which the handler for \<^verbatim>\<open>ValueError\<close> does not catch. Here the
  key \<^verbatim>\<open>cmds\<close> holds CommandA and CommandB and the name \<^verbatim>\<open>absent\<close> is removed.
\<close>

theorem remove_unmatched_name_raises_StopIteration:
  "Plugin_remove example_plugin ''cmds'' (Some ''absent'') populated_store
     = (populated_store, Inl StopIteration)"
  by code_simp

text \<open>
  C2. The claim: \<^verbatim>\<open>get\<close> of an absent key returns an empty Component Set. The code returns
  the default \<^verbatim>\<open>[]\<close>, a new built-in list: it is empty, but it is no instance of
  \<^verbatim>\<open>ComponentSet\<close> and carries no constraint on its elements. Here the key \<^verbatim>\<open>absent\<close> is
  read from the example plugin, and the object returned is the one at address 10.
\<close>

theorem get_absent_key_returns_builtin_list:
  "Plugin_get example_plugin ''absent'' populated_store
     = (populated_store @ [Obj [''list''] (Items None [])], Inr 10)
   \<and> \<not> isinstance (populated_store @ [Obj [''list''] (Items None [])]) 10 ''ComponentSet''
   \<and> \<not> is_component_set (populated_store @ [Obj [''list''] (Items None [])]) 10"
  by code_simp

text \<open>
  C3. Without a category, \<^verbatim>\<open>filter\<close> returns the plugin's own mapping: the reference returned
  is the one held in \<open>components\<close>, and the store is not touched. What is done to the returned
  mapping is therefore done to the plugin: after a successful assignment through the returned
  reference, \<^verbatim>\<open>get\<close> returns the value assigned, and after a successful deletion through it
  the key is gone from the plugin (removing it raises \<^verbatim>\<open>KeyError\<close>).
\<close>

theorem filter_without_category_is_live:
  "\<exists>r. Plugin_filter self None h = (h, Inr r) \<and> r = components self \<and>
     (\<forall>k v h'. dict_setitem h r k v = (h', Inr ()) \<longrightarrow> snd (Plugin_get self k h') = Inr v) \<and>
     (\<forall>k h'. dict_delitem h r k = (h', Inr ()) \<longrightarrow>
        Plugin_remove self k None h' = (h', Inl KeyError))"
proof -
  have set: "snd (Plugin_get self k h') = Inr v"
    if "dict_setitem h (components self) k v = (h', Inr ())" for k v h'
  proof -
    from that obtain cs V kvs where
      d: "deref h (components self) = Some (Obj cs (Entries V kvs))" and
      h': "h' = h[components self := Obj cs (Entries V (AList.update k v kvs))]"
      by (rule dict_setitem_Inr)
    have "deref h' (components self) = Some (Obj cs (Entries V (AList.update k v kvs)))"
      using d h' by (simp add: deref_update_same)
    then show ?thesis
      by (simp add: Plugin_get_at update_conv')
  qed
  have del: "Plugin_remove self k None h' = (h', Inl KeyError)"
    if "dict_delitem h (components self) k = (h', Inr ())" for k h'
  proof -
    from that obtain cs V kvs where
      d: "deref h (components self) = Some (Obj cs (Entries V kvs))" and
      h': "h' = h[components self := Obj cs (Entries V (AList.delete k kvs))]"
      by (rule dict_delitem_Inr)
    have "deref h' (components self) = Some (Obj cs (Entries V (AList.delete k kvs)))"
      using d h' by (simp add: deref_update_same)
    then show ?thesis
      by (simp add: Plugin_remove_def dict_contains_at delete_conv')
  qed
  show ?thesis
    using set del by (simp add: Plugin_filter_def)
qed

theorem filter_without_category_is_live_witness:
  "Plugin_filter example_plugin None populated_store = (populated_store, Inr 7)
   \<and> dict_setitem populated_store 7 ''more'' 9 =
       (populated_store[7 := Obj [''TypeConstrainedDict'']
          (Entries (Some ''ComponentSet'') [(''cmds'', 8), (''assets'', 9), (''more'', 9)])], Inr ())
   \<and> snd (Plugin_get example_plugin ''more''
       (populated_store[7 := Obj [''TypeConstrainedDict'']
          (Entries (Some ''ComponentSet'') [(''cmds'', 8), (''assets'', 9), (''more'', 9)])])) = Inr 9
   \<and> dict_delitem populated_store 7 ''cmds'' =
       (populated_store[7 := Obj [''TypeConstrainedDict'']
          (Entries (Some ''ComponentSet'') [(''assets'', 9)])], Inr ())
   \<and> Plugin_remove example_plugin ''cmds'' None
       (populated_store[7 := Obj [''TypeConstrainedDict'']
          (Entries (Some ''ComponentSet'') [(''assets'', 9)])])
      = (populated_store[7 := Obj [''TypeConstrainedDict'']
          (Entries (Some ''ComponentSet'') [(''assets'', 9)])], Inl KeyError)"
proof -
  have s: "dict_setitem populated_store 7 ''more'' 9 =
       (populated_store[7 := Obj [''TypeConstrainedDict'']
          (Entries (Some ''ComponentSet'') [(''cmds'', 8), (''assets'', 9), (''more'', 9)])], Inr ())"
    by code_simp
  have d: "dict_delitem populated_store 7 ''cmds'' =
       (populated_store[7 := Obj [''TypeConstrainedDict'']
          (Entries (Some ''ComponentSet'') [(''assets'', 9)])], Inr ())"
    by code_simp
  have c: "components example_plugin = 7"
    by (simp add: example_plugin_def)
  from filter_without_category_is_live [of example_plugin populated_store]
  show ?thesis
    using s d c by auto
qed

text \<open>
  C5. A value that does not satisfy the declared constraint is rejected by every inserting or
  assigning operation of the constrained list (append, insert, assignment by index, assignment
  to a slice and extend, the last two with a sequence that holds the value) and by assignment
  into the constrained mapping: the operation raises \<^verbatim>\<open>TypeError\<close> and returns the store
  it was given, so that the contents of the collection, and of everything else, are as before
  the call. The collaborators are those modelled from the spec above.
\<close>

theorem constrained_collections_reject_before_mutation:
  "(deref h l = Some (Obj cs (Items T xs)) \<and> \<not> satisfies h T x \<longrightarrow>
      list_append h l x = (h, Inl TypeError) \<and>
      list_insert h l i x = (h, Inl TypeError) \<and>
      list_setitem h l i x = (h, Inl TypeError) \<and>
      list_extend h l (ys @ x # zs) = (h, Inl TypeError) \<and>
      list_setslice h l start stop step (ys @ x # zs) = (h, Inl TypeError))
   \<and> (deref h d = Some (Obj ds (Entries V kvs)) \<and> \<not> satisfies h V v \<longrightarrow>
      dict_setitem h d k v = (h, Inl TypeError))"
  by (simp add: list_append_def list_insert_def list_setitem_def list_extend_def
      list_setslice_def dict_setitem_def)

theorem constrained_collections_reject_before_mutation_witness:
  "deref populated_store 8 =
     Some (Obj [''ComponentSet'', ''TypeConstrainedList''] (Items (Some ''Component'') [1, 2]))
   \<and> \<not> satisfies populated_store (Some ''Component'') 5
   \<and> list_append populated_store 8 5 = (populated_store, Inl TypeError)
   \<and> list_insert populated_store 8 0 5 = (populated_store, Inl TypeError)
   \<and> list_setitem populated_store 8 1 5 = (populated_store, Inl TypeError)
   \<and> list_extend populated_store 8 ([4] @ 5 # [3]) = (populated_store, Inl TypeError)
   \<and> list_setslice populated_store 8 (Some 0) (Some 1) None ([4] @ 5 # [3])
        = (populated_store, Inl TypeError)
   \<and> list_setslice populated_store 8 None None (Some 2) ([4] @ 5 # [3])
        = (populated_store, Inl TypeError)
   \<and> deref populated_store 7 =
     Some (Obj [''TypeConstrainedDict'']
       (Entries (Some ''ComponentSet'') [(''cmds'', 8), (''assets'', 9)]))
   \<and> \<not> satisfies populated_store (Some ''ComponentSet'') 1
   \<and> dict_setitem populated_store 7 ''cmds'' 1 = (populated_store, Inl TypeError)"
proof -
  have l: "deref populated_store 8 =
     Some (Obj [''ComponentSet'', ''TypeConstrainedList''] (Items (Some ''Component'') [1, 2]))"
    by code_simp
  have x: "\<not> satisfies populated_store (Some ''Component'') 5"
    by code_simp
  have d: "deref populated_store 7 =
     Some (Obj [''TypeConstrainedDict'']
       (Entries (Some ''ComponentSet'') [(''cmds'', 8), (''assets'', 9)]))"
    by code_simp
  have v: "\<not> satisfies populated_store (Some ''ComponentSet'') 1"
    by code_simp
  note rejected = constrained_collections_reject_before_mutation
    [where h = populated_store and l = 8 and x = 5 and ys = "[4]" and zs = "[3]"
       and T = "Some ''Component''" and xs = "[1, 2]"
       and cs = "[''ComponentSet'', ''TypeConstrainedList'']"
       and d = 7 and v = 1 and k = "''cmds''" and V = "Some ''ComponentSet''"
       and ds = "[''TypeConstrainedDict'']" and kvs = "[(''cmds'', 8), (''assets'', 9)]"]
  from rejected [where i = 0 and start = "Some 0" and stop = "Some 1" and step = None]
    rejected [where i = 1 and start = None and stop = None and step = "Some 2"]
  show ?thesis
    using l x d v by simp
qed

text \<open>
  C4. With a category, \<^verbatim>\<open>filter\<close> on a well-formed plugin returns a new mapping (a new
  object, at an address that the plugin's own mapping does not have) and changes nothing
  else in the store. Its entries are exactly the entries of the plugin's mapping, in order,
  whose set holds at least one instance of the category; each such key is mapped to the
  very set that the plugin holds for it, so the set is whole, not pruned to the matching
  components.
\<close>

theorem filter_category_keeps_whole_sets:
  assumes "wf_plugin h self"
  shows "\<exists>kvs out h'.
      dict_entries h (components self) = (h, Inr kvs) \<and>
      out = filter (\<lambda>kv. \<exists>x\<in>set (items_at h (snd kv)). isinstance h x c) kvs \<and>
      h' = h @ [Obj [''dict''] (Entries None out)] \<and>
      Plugin_filter self (Some c) h = (h', Inr (length h)) \<and>
      length h \<noteq> components self \<and>
      dict_entries h' (length h) = (h', Inr out) \<and>
      (\<forall>kv\<in>set out. items_at h' (snd kv) = items_at h (snd kv))"
proof -
  from assms obtain cs kvs where
    d: "deref h (components self) = Some (Obj cs (Entries (Some ''ComponentSet'') kvs))" and
    sets: "\<forall>kv\<in>set kvs. is_component_set h (snd kv)"
    by (rule wf_pluginE)
  let ?out = "filter (\<lambda>kv. \<exists>x\<in>set (items_at h (snd kv)). isinstance h x c) kvs"
  let ?h' = "h @ [Obj [''dict''] (Entries None ?out)]"
  have lists: "\<forall>kv\<in>set kvs. \<exists>cs T xs. deref h (snd kv) = Some (Obj cs (Items T xs))"
    using sets by (blast elim: is_component_setE)
  then have lt: "\<forall>kv\<in>set kvs. snd kv < length h"
    by (auto simp: deref_Some_iff)
  have "Plugin_filter self (Some c) h = (?h', Inr (length h))"
    by (simp add: Plugin_filter_def dict_entries_at [OF d] comprehension_filter [OF lists]
        alloc_def)
  moreover have "length h \<noteq> components self"
    using d by (auto simp: deref_Some_iff)
  moreover have "dict_entries ?h' (length h) = (?h', Inr ?out)"
    by (simp add: dict_entries_def deref_snoc_new)
  moreover have "\<forall>kv\<in>set ?out. items_at ?h' (snd kv) = items_at h (snd kv)"
    using lt by (auto simp: items_at_append)
  ultimately show ?thesis
    using dict_entries_at [OF d] by blast
qed

theorem filter_category_keeps_whole_sets_witness:
  "wf_plugin populated_store example_plugin \<and>
   Plugin_filter example_plugin (Some ''Asset'') populated_store
     = (populated_store @ [Obj [''dict''] (Entries None [(''assets'', 9)])], Inr 10) \<and>
   Plugin_filter example_plugin (Some ''Component'') populated_store
     = (populated_store @ [Obj [''dict''] (Entries None [(''cmds'', 8), (''assets'', 9)])], Inr 10)"
proof -
  have e: "dict_entries populated_store (components example_plugin)
      = (populated_store, Inr [(''cmds'', 8), (''assets'', 9)])"
    by code_simp
  have a: "filter (\<lambda>kv. \<exists>x\<in>set (items_at populated_store (snd kv)).
              isinstance populated_store x ''Asset'') [(''cmds'', 8), (''assets'', 9)]
      = [(''assets'', 9)]"
    by code_simp
  have b: "filter (\<lambda>kv. \<exists>x\<in>set (items_at populated_store (snd kv)).
              isinstance populated_store x ''Component'') [(''cmds'', 8), (''assets'', 9)]
      = [(''cmds'', 8), (''assets'', 9)]"
    by code_simp
  have n: "length populated_store = 10"
    by (simp add: populated_store_def)
  obtain kvs out h' where
    1: "dict_entries populated_store (components example_plugin) = (populated_store, Inr kvs)" and
    2: "out = filter (\<lambda>kv. \<exists>x\<in>set (items_at populated_store (snd kv)).
              isinstance populated_store x ''Asset'') kvs" and
    3: "h' = populated_store @ [Obj [''dict''] (Entries None out)]" and
    4: "Plugin_filter example_plugin (Some ''Asset'') populated_store
          = (h', Inr (length populated_store))"
    using filter_category_keeps_whole_sets [OF wf_populated, of "''Asset''"] by blast
  from 1 e have "kvs = [(''cmds'', 8), (''assets'', 9)]" by simp
  with 2 a have "out = [(''assets'', 9)]" by simp
  with 3 4 n have asset: "Plugin_filter example_plugin (Some ''Asset'') populated_store
     = (populated_store @ [Obj [''dict''] (Entries None [(''assets'', 9)])], Inr 10)"
    by simp
  obtain kvs out h' where
    1: "dict_entries populated_store (components example_plugin) = (populated_store, Inr kvs)" and
    2: "out = filter (\<lambda>kv. \<exists>x\<in>set (items_at populated_store (snd kv)).
              isinstance populated_store x ''Component'') kvs" and
    3: "h' = populated_store @ [Obj [''dict''] (Entries None out)]" and
    4: "Plugin_filter example_plugin (Some ''Component'') populated_store
          = (h', Inr (length populated_store))"
    using filter_category_keeps_whole_sets [OF wf_populated, of "''Component''"] by blast
  from 1 e have "kvs = [(''cmds'', 8), (''assets'', 9)]" by simp
  with 2 b have "out = [(''cmds'', 8), (''assets'', 9)]" by simp
  with 3 4 n have "Plugin_filter example_plugin (Some ''Component'') populated_store
     = (populated_store @ [Obj [''dict''] (Entries None [(''cmds'', 8), (''assets'', 9)])], Inr 10)"
    by simp
  with asset show ?thesis
    using wf_populated by simp
qed

text \<open>
  C7. Whenever \<^verbatim>\<open>p.add(key, c)\<close> returns, the owner recorded in \<open>c\<close> is the name of \<open>p\<close>,
  whatever owner was recorded before: nothing guards the call of \<^verbatim>\<open>attach\<close>. So when the
  same component is afterwards added to a plugin \<open>q\<close>, that call returns as well and the
  owner recorded is then the name of \<open>q\<close>.
\<close>

theorem add_records_owner_unconditionally:
  assumes "Plugin_add p key c h = (h1, Inr r1)"
    and "Plugin_add q key' c h1 = (h2, Inr r2)"
  shows "owner_of h1 c = Some (name p) \<and> owner_of h2 c = Some (name q)"
  using assms by (simp add: add_owner)

theorem add_records_owner_unconditionally_witness:
  "snd (Plugin_add example_plugin ''cmds'' 4 shared_store) = Inr example_plugin
   \<and> snd (Plugin_add other_plugin ''tools'' 4
            (fst (Plugin_add example_plugin ''cmds'' 4 shared_store))) = Inr other_plugin
   \<and> owner_of (fst (Plugin_add example_plugin ''cmds'' 4 shared_store)) 4 = Some ''p''
   \<and> owner_of (fst (Plugin_add other_plugin ''tools'' 4
            (fst (Plugin_add example_plugin ''cmds'' 4 shared_store)))) 4 = Some ''q''"
proof -
  let ?h1 = "fst (Plugin_add example_plugin ''cmds'' 4 shared_store)"
  let ?h2 = "fst (Plugin_add other_plugin ''tools'' 4 ?h1)"
  have a: "snd (Plugin_add example_plugin ''cmds'' 4 shared_store) = Inr example_plugin"
    by code_simp
  have b: "snd (Plugin_add other_plugin ''tools'' 4 ?h1) = Inr other_plugin"
    by code_simp
  have a': "Plugin_add example_plugin ''cmds'' 4 shared_store = (?h1, Inr example_plugin)"
    using a by (simp add: prod_eq_iff)
  have b': "Plugin_add other_plugin ''tools'' 4 ?h1 = (?h2, Inr other_plugin)"
    using b by (simp add: prod_eq_iff)
  from add_records_owner_unconditionally [OF a' b'] a b
  show ?thesis
    by (simp add: example_plugin_def other_plugin_def)
qed

text \<open>
  C10. \<^verbatim>\<open>add\<close> is not atomic. On a well-formed plugin, with a key that the mapping does not
  hold and a contribution that exposes \<^verbatim>\<open>attach\<close> but is no instance of \<^verbatim>\<open>Component\<close>,
  the call raises \<^verbatim>\<open>TypeError\<close> from the final append, and the store it leaves behind has
  the key mapped to a new, empty Component Set (an object that the store did not hold
  before) and the plugin's name recorded as the owner of the contribution.
\<close>

theorem add_is_not_atomic:
  assumes wf: "wf_plugin h self"
    and absent: "dict_contains h (components self) key = (h, Inr False)"
    and c: "deref h contrib = Some (Obj ccs (Named n ow))"
    and notc: "\<not> isinstance h contrib ''Component''"
  shows "\<exists>h' l. Plugin_add self key contrib h = (h', Inl TypeError) \<and>
           dict_getitem h' (components self) key = (h', Inr l) \<and>
           deref h' l = Some ComponentSet \<and> deref h l = None \<and>
           get_items self key h' = Inr [] \<and>
           owner_of h' contrib = Some (name self)"
proof -
  from wf obtain cs kvs where
    d: "deref h (components self) = Some (Obj cs (Entries (Some ''ComponentSet'') kvs))"
    by (rule wf_pluginE)
  from absent have None: "map_of kvs key = None"
    by (simp add: dict_contains_at [OF d])
  from notc c have ccs: "''Component'' \<notin> set ccs"
    by (simp add: isinstance_def)
  have lt: "components self < length h" "contrib < length h"
    using d c by (auto simp: deref_Some_iff)
  have ne: "components self \<noteq> contrib"
    using d c by auto
  let ?kvs = "AList.update key (length h) kvs"
  let ?h' = "(h @ [ComponentSet])
               [components self := Obj cs (Entries (Some ''ComponentSet'') ?kvs),
                contrib := Obj ccs (Named n (Some (name self)))]"
  have add: "Plugin_add self key contrib h = (?h', Inl TypeError)"
    by (simp add: add_absent [OF d None c] ccs)
  have d': "deref ?h' (components self) = Some (Obj cs (Entries (Some ''ComponentSet'') ?kvs))"
    using ne lt by (simp add: deref_update)
  have l': "deref ?h' (length h) = Some ComponentSet"
    using lt by (simp add: deref_update deref_snoc_new)
  have c': "deref ?h' contrib = Some (Obj ccs (Named n (Some (name self))))"
    using lt by (simp add: deref_update)
  have "dict_getitem ?h' (components self) key = (?h', Inr (length h))"
    by (simp add: dict_getitem_at [OF d'] update_conv')
  moreover have "get_items self key ?h' = Inr []"
    using l' by (intro get_items_present [OF d']) (simp_all add: update_conv' ComponentSet_def)
  moreover have "owner_of ?h' contrib = Some (name self)"
    using c' by (simp add: owner_of_def)
  moreover have "deref h (length h) = None"
    by (simp add: deref_def)
  ultimately show ?thesis
    using add l' by blast
qed

theorem add_is_not_atomic_witness:
  "wf_plugin populated_store example_plugin
   \<and> dict_contains populated_store (components example_plugin) ''tools'' = (populated_store, Inr False)
   \<and> deref populated_store 5 = Some (Obj [''Mock''] (Named ''fake'' None))
   \<and> \<not> isinstance populated_store 5 ''Component''
   \<and> snd (Plugin_add example_plugin ''tools'' 5 populated_store) = Inl TypeError
   \<and> dict_getitem (fst (Plugin_add example_plugin ''tools'' 5 populated_store))
        (components example_plugin) ''tools''
      = (fst (Plugin_add example_plugin ''tools'' 5 populated_store), Inr 10)
   \<and> get_items example_plugin ''tools'' (fst (Plugin_add example_plugin ''tools'' 5 populated_store))
      = Inr []
   \<and> owner_of (fst (Plugin_add example_plugin ''tools'' 5 populated_store)) 5 = Some ''p''"
proof -
  have a: "dict_contains populated_store (components example_plugin) ''tools''
      = (populated_store, Inr False)"
    by code_simp
  have c: "deref populated_store 5 = Some (Obj [''Mock''] (Named ''fake'' None))"
    by code_simp
  have n: "\<not> isinstance populated_store 5 ''Component''"
    by code_simp
  have g: "dict_getitem (fst (Plugin_add example_plugin ''tools'' 5 populated_store))
        (components example_plugin) ''tools''
      = (fst (Plugin_add example_plugin ''tools'' 5 populated_store), Inr 10)"
    by code_simp
  from add_is_not_atomic [OF wf_populated a c n]
  show ?thesis
    using wf_populated a c n g by (auto simp: example_plugin_def)
qed

text \<open>
  C6. The claim: for every plugin and key, after \<^verbatim>\<open>add(key, c1)\<close> and \<^verbatim>\<open>add(key, c2)\<close>,
  \<^verbatim>\<open>get(key)\<close> yields exactly \<open>[c1, c2]\<close>. That fails for a plugin whose key already holds
  components: in the example the key \<^verbatim>\<open>cmds\<close> holds CommandA and CommandB, and after adding
  logo and CommandC it yields all four.
\<close>

theorem add_add_get_counterexample:
  "add_add_get example_plugin ''cmds'' 3 4 populated_store = Inr [1, 2, 3, 4]
   \<and> add_add_get example_plugin ''cmds'' 3 4 populated_store \<noteq> Inr [3, 4]"
  by code_simp

text \<open>
  C6, as amended. On a well-formed plugin, adding the components \<open>c1\<close> and then \<open>c2\<close> under
  a key succeeds, and \<^verbatim>\<open>get(key)\<close> then yields what it yielded before followed by \<open>c1\<close>,
  \<open>c2\<close> in that order; it yields exactly \<open>[c1, c2]\<close> when the key was absent or held an
  empty set, which is when \<^verbatim>\<open>get(key)\<close> yielded nothing before.
\<close>

theorem add_add_get_appends:
  assumes wf: "wf_plugin h self" and c1: "is_component h c1" and c2: "is_component h c2"
    and xs: "get_items self key h = Inr xs"
  shows "add_add_get self key c1 c2 h = Inr (xs @ [c1, c2])"
proof -
  from add_wf [OF wf c1, of key] xs obtain h1 where
    a1: "Plugin_add self key c1 h = (h1, Inr self)" and wf1: "wf_plugin h1 self" and
    c2': "is_component h1 c2" and g1: "get_items self key h1 = Inr (xs @ [c1])"
    using c2 by blast
  from add_wf [OF wf1 c2', of key] g1 obtain h2 where
    a2: "Plugin_add self key c2 h1 = (h2, Inr self)" and
    g2: "get_items self key h2 = Inr ((xs @ [c1]) @ [c2])"
    by blast
  show ?thesis
    using a1 a2 g2 by (simp add: add_add_get_def get_items_def)
qed

theorem add_add_get_appends_witness:
  "wf_plugin populated_store example_plugin \<and> is_component populated_store 3
   \<and> is_component populated_store 4
   \<and> get_items example_plugin ''cmds'' populated_store = Inr [1, 2]
   \<and> add_add_get example_plugin ''cmds'' 3 4 populated_store = Inr ([1, 2] @ [3, 4])
   \<and> get_items example_plugin ''tools'' populated_store = Inr []
   \<and> add_add_get example_plugin ''tools'' 3 4 populated_store = Inr ([] @ [3, 4])"
proof -
  have c3: "is_component populated_store 3" and c4: "is_component populated_store 4"
    by code_simp+
  have g: "get_items example_plugin ''cmds'' populated_store = Inr [1, 2]"
    by code_simp
  have e: "get_items example_plugin ''tools'' populated_store = Inr []"
    by code_simp
  from add_add_get_appends [OF wf_populated c3 c4 g]
    add_add_get_appends [OF wf_populated c3 c4 e]
  show ?thesis
    using wf_populated c3 c4 g e by simp
qed

text \<open>
  C8. On a well-formed plugin whose key holds a set in which \<open>c\<close> is the first component
  named \<open>n\<close> (no element before it has that name), \<^verbatim>\<open>remove(key, n)\<close> succeeds and removes
  exactly that element: the key is still mapped to the same set, which now holds the elements
  before and after \<open>c\<close>, and \<^verbatim>\<open>get(key)\<close> yields them. With the set \<open>[c1, c2]\<close> and the
  name of \<open>c1\<close> this leaves \<open>[c2]\<close>; with a set of one element the key stays, mapped to
  the empty set.
\<close>

theorem remove_first_named:
  assumes wf: "wf_plugin h self"
    and key: "dict_getitem h (components self) key = (h, Inr l)"
    and items: "list_items h l = (h, Inr (ys @ c # zs))"
    and before: "\<forall>y\<in>set ys. name_of h y \<noteq> Inr n"
    and found: "name_of h c = Inr n"
  shows "\<exists>h'. Plugin_remove self key (Some n) h = (h', Inr self) \<and>
           dict_getitem h' (components self) key = (h', Inr l) \<and>
           list_items h' l = (h', Inr (ys @ zs)) \<and>
           get_items self key h' = Inr (ys @ zs)"
proof -
  from wf obtain cs kvs where
    d: "deref h (components self) = Some (Obj cs (Entries (Some ''ComponentSet'') kvs))" and
    sets: "\<forall>kv\<in>set kvs. is_component_set h (snd kv)"
    by (rule wf_pluginE)
  from key d have k: "map_of kvs key = Some l"
    by (auto elim!: dict_getitem_Inr)
  then have "is_component_set h l"
    using sets by (rule map_of_is_component_set [rotated])
  then obtain lcs xs where l0: "deref h l = Some (Obj lcs (Items (Some ''Component'') xs))"
    and comps: "\<forall>x\<in>set xs. is_component h x"
    by (rule is_component_setE)
  from items l0 have xs: "xs = ys @ c # zs"
    by (auto elim!: list_items_Inr)
  have l: "deref h l = Some (Obj lcs (Items (Some ''Component'') (ys @ c # zs)))"
    using l0 xs by simp
  have named: "\<forall>y\<in>set ys. \<exists>m. name_of h y = Inr m \<and> m \<noteq> n"
  proof
    fix y assume y: "y \<in> set ys"
    then have "is_component h y" using comps xs by simp
    then obtain m where "name_of h y = Inr m"
      by (auto elim!: is_componentE simp: name_of_at)
    with before y show "\<exists>m. name_of h y = Inr m \<and> m \<noteq> n" by auto
  qed
  have nx: "next_named h n (ys @ c # zs) = Inr c"
    using named found by (rule next_named_first)
  have notin: "c \<notin> set ys"
    using before found by auto
  let ?h' = "h[l := Obj lcs (Items (Some ''Component'') (ys @ zs))]"
  have ne: "l \<noteq> components self"
    using l d by auto
  have rm: "Plugin_remove self key (Some n) h = (?h', Inr self)"
    by (simp add: Plugin_remove_def dict_contains_at [OF d] k dict_getitem_at [OF d]
        list_items_at [OF l] nx list_remove_at [OF l] remove1_first [OF notin])
  have d': "deref ?h' (components self) = Some (Obj cs (Entries (Some ''ComponentSet'') kvs))"
    using d ne by (simp add: deref_update_other)
  have l': "deref ?h' l = Some (Obj lcs (Items (Some ''Component'') (ys @ zs)))"
    using l by (rule deref_update_same)
  have "dict_getitem ?h' (components self) key = (?h', Inr l)"
    by (simp add: dict_getitem_at [OF d'] k)
  moreover have "list_items ?h' l = (?h', Inr (ys @ zs))"
    using l' by (rule list_items_at)
  moreover have "get_items self key ?h' = Inr (ys @ zs)"
    using d' k l' by (rule get_items_present)
  ultimately show ?thesis
    using rm by blast
qed

theorem remove_first_named_witness:
  "wf_plugin populated_store example_plugin
   \<and> dict_getitem populated_store (components example_plugin) ''cmds'' = (populated_store, Inr 8)
   \<and> list_items populated_store 8 = (populated_store, Inr ([] @ 1 # [2]))
   \<and> name_of populated_store 1 = Inr ''CommandA''
   \<and> snd (Plugin_remove example_plugin ''cmds'' (Some ''CommandA'') populated_store)
        = Inr example_plugin
   \<and> get_items example_plugin ''cmds''
        (fst (Plugin_remove example_plugin ''cmds'' (Some ''CommandA'') populated_store))
        = Inr [2]
   \<and> dict_getitem populated_store (components example_plugin) ''assets'' = (populated_store, Inr 9)
   \<and> list_items populated_store 9 = (populated_store, Inr ([] @ 3 # []))
   \<and> name_of populated_store 3 = Inr ''logo''
   \<and> snd (Plugin_remove example_plugin ''assets'' (Some ''logo'') populated_store)
        = Inr example_plugin
   \<and> dict_contains (fst (Plugin_remove example_plugin ''assets'' (Some ''logo'') populated_store))
        (components example_plugin) ''assets''
        = (fst (Plugin_remove example_plugin ''assets'' (Some ''logo'') populated_store), Inr True)
   \<and> get_items example_plugin ''assets''
        (fst (Plugin_remove example_plugin ''assets'' (Some ''logo'') populated_store))
        = Inr []"
proof -
  have k: "dict_getitem populated_store (components example_plugin) ''cmds''
      = (populated_store, Inr 8)"
    by code_simp
  have i: "list_items populated_store 8 = (populated_store, Inr ([] @ 1 # [2]))"
    by code_simp
  have b: "\<forall>y\<in>set []. name_of populated_store y \<noteq> Inr ''CommandA''"
    by simp
  have f: "name_of populated_store 1 = Inr ''CommandA''"
    by code_simp
  have k': "dict_getitem populated_store (components example_plugin) ''assets''
      = (populated_store, Inr 9)"
    by code_simp
  have i': "list_items populated_store 9 = (populated_store, Inr ([] @ 3 # []))"
    by code_simp
  have b': "\<forall>y\<in>set []. name_of populated_store y \<noteq> Inr ''logo''"
    by simp
  have f': "name_of populated_store 3 = Inr ''logo''"
    by code_simp
  have c: "dict_contains (fst (Plugin_remove example_plugin ''assets'' (Some ''logo'') populated_store))
        (components example_plugin) ''assets''
        = (fst (Plugin_remove example_plugin ''assets'' (Some ''logo'') populated_store), Inr True)"
    by code_simp
  from remove_first_named [OF wf_populated k i b f]
    remove_first_named [OF wf_populated k' i' b' f']
  show ?thesis
    using wf_populated k i f k' i' f' c by auto
qed

text \<open>
  C9. The claim: after \<^verbatim>\<open>clone = plugin.copy()\<close> no mutating operation on the clone changes
  any observable state of the original. That fails when the clone is given a component that
  the original holds: \<^verbatim>\<open>add\<close> attaches whatever it is passed, so the owner recorded in the
  original's component is overwritten. Here \<^verbatim>\<open>p\<close> holds CommandA, whose owner has become
  \<^verbatim>\<open>q\<close> by \<^verbatim>\<open>q.add("tools", CommandA)\<close>; after \<^verbatim>\<open>clone = p.copy()\<close>, the call
  \<^verbatim>\<open>clone.add("more", CommandA)\<close> returns and the observable state of \<^verbatim>\<open>p\<close> is no
  longer what it was.
\<close>

theorem clone_add_changes_original_counterexample:
  "Plugin_add other_plugin ''tools'' 1 shared_store = (reused_store, Inr other_plugin)
   \<and> Plugin_copy 4 example_plugin reused_store = (reused_copy, Inr reused_clone)
   \<and> snd (Plugin_add reused_clone ''more'' 1 reused_copy) = Inr reused_clone
   \<and> view (fst (Plugin_add reused_clone ''more'' 1 reused_copy)) example_plugin
       \<noteq> view reused_copy example_plugin"
  by code_simp

text \<open>
  C9, as amended. \<^verbatim>\<open>copy\<close> on a well-formed plugin whose model is an opaque object (an
  instance of a class such as \<^verbatim>\<open>PluginModel\<close>, not an atomic value), with a recursion bound of at least four nesting levels (the plugin, its mapping, a set, a
  component), returns a clone and leaves every object of the store before the call as it was.
  The clone has the same name and version, is well formed, and shows the same observable state
  as the original; the model, the mapping, every set and every component of the clone are
  objects allocated by the call, so that none is shared with the original. \<^verbatim>\<open>remove\<close> on
  the clone leaves the observable state of the original as it is, and so does \<^verbatim>\<open>add\<close> on
  the clone of a component that is not itself one of the objects of the original, whether
  the call returns or raises; and the same holds with the clone and the original exchanged.
\<close>

theorem copy_is_deep_and_independent:
  assumes wf: "wf_plugin h self" and mo: "deref h (model self) = Some (Obj mcs Opaque)"
    and depth: "4 \<le> depth"
  shows "\<exists>h' clone.
     Plugin_copy depth self h = (h', Inr clone) \<and>
     take (length h) h' = h \<and>
     name clone = name self \<and> version clone = version self \<and>
     wf_plugin h' clone \<and>
     view h' clone = view h self \<and> view h' self = view h self \<and>
     (\<forall>a\<in>set (footprint h' clone). length h \<le> a \<and> a < length h') \<and>
     (\<forall>a\<in>set (footprint h' self). a < length h) \<and>
     (\<forall>key c h'' r. Plugin_add clone key c h' = (h'', r) \<longrightarrow> c \<notin> set (footprint h' self) \<longrightarrow>
        view h'' self = view h' self) \<and>
     (\<forall>key n h'' r. Plugin_remove clone key n h' = (h'', r) \<longrightarrow> view h'' self = view h' self) \<and>
     (\<forall>key c h'' r. Plugin_add self key c h' = (h'', r) \<longrightarrow> c \<notin> set (footprint h' clone) \<longrightarrow>
        view h'' clone = view h' clone) \<and>
     (\<forall>key n h'' r. Plugin_remove self key n h' = (h'', r) \<longrightarrow> view h'' clone = view h' clone)"
proof -
  have depth': "depth = Suc (Suc (Suc (Suc (depth - 4))))"
    using depth by simp
  from Plugin_copy_wf [OF wf mo, of "depth - 4"] obtain h' m mo' co where
    copy: "Plugin_copy depth self h =
       (h', Inr \<lparr>model = mo', name = name self, version = version self, components = co\<rparr>)" and
    inv: "copying {} h (h', m)" and mm: "map_of m (model self) = Some mo'" and
    mc: "map_of m (components self) = Some co"
    using depth' by metis
  let ?clone = "\<lparr>model = mo', name = name self, version = version self, components = co\<rparr>"
  have pre: "take (length h) h' = h"
    using inv by (rule copying_prefix)
  have len: "length h \<le> length h'"
    using pre by (rule take_prefix_length)
  have old: "\<forall>a\<in>set (footprint h self). a < length h"
    using wf mo by (rule footprint_original)
  have same: "\<forall>a\<in>set (footprint h self). deref h' a = deref h a"
    using old take_prefix_deref [OF pre] by blast
  note orig = view_frame [OF same]
  have wfc: "wf_plugin h' ?clone"
    using inv wf mc by (rule copy_wf)
  note cl = copy_of_plugin [OF inv wf mo mm mc]
  have old': "\<forall>a\<in>set (footprint h' self). a < length h"
    using old orig(2) by simp
  have on_clone: "view h'' self = view h' self"
    if "\<forall>a\<in>set (footprint h' self). deref h'' a = deref h' a" for h''
    using that by (rule view_frame(1))
  have on_self: "view h'' ?clone = view h' ?clone"
    if "\<forall>a\<in>set (footprint h' ?clone). deref h'' a = deref h' a" for h''
    using that by (rule view_frame(1))
  have apart: "a \<notin> set (footprint h' ?clone)" if "a \<in> set (footprint h' self)" for a
    using that old' cl(2) by fastforce
  have apart': "a \<notin> set (footprint h' self)" if "a \<in> set (footprint h' ?clone)" for a
    using that apart by blast
  have 1: "view h'' self = view h' self"
    if "Plugin_add ?clone key c h' = (h'', r)" "c \<notin> set (footprint h' self)" for key c h'' r
  proof (rule on_clone, rule ballI)
    fix a assume a: "a \<in> set (footprint h' self)"
    then have "a \<noteq> c" "a < length h'" using that(2) old' len by auto
    with that(1) apart [OF a] show "deref h'' a = deref h' a" by (rule add_frame)
  qed
  have 2: "view h'' self = view h' self"
    if "Plugin_remove ?clone key n h' = (h'', r)" for key n h'' r
  proof (rule on_clone, rule ballI)
    fix a assume a: "a \<in> set (footprint h' self)"
    from that apart [OF a] show "deref h'' a = deref h' a" by (rule remove_frame)
  qed
  have 3: "view h'' ?clone = view h' ?clone"
    if "Plugin_add self key c h' = (h'', r)" "c \<notin> set (footprint h' ?clone)" for key c h'' r
  proof (rule on_self, rule ballI)
    fix a assume a: "a \<in> set (footprint h' ?clone)"
    then have "a \<noteq> c" "a < length h'" using that(2) cl(2) by auto
    with that(1) apart' [OF a] show "deref h'' a = deref h' a" by (rule add_frame)
  qed
  have 4: "view h'' ?clone = view h' ?clone"
    if "Plugin_remove self key n h' = (h'', r)" for key n h'' r
  proof (rule on_self, rule ballI)
    fix a assume a: "a \<in> set (footprint h' ?clone)"
    from that apart' [OF a] show "deref h'' a = deref h' a" by (rule remove_frame)
  qed
  show ?thesis
    apply (rule exI [of _ h'])
    apply (rule exI [of _ ?clone])
    apply (intro conjI allI impI)
    using copy pre wfc cl orig(1) old' 1 2 3 4 by simp_all
qed

theorem copy_is_deep_and_independent_witness:
  "wf_plugin populated_store example_plugin
   \<and> deref populated_store (model example_plugin) = Some (Obj [''PluginModel''] Opaque)
   \<and> Plugin_copy 4 example_plugin populated_store = (copied_store, Inr example_clone)
   \<and> take (length populated_store) copied_store = populated_store
   \<and> view copied_store example_clone = view populated_store example_plugin
   \<and> view copied_store example_plugin = view populated_store example_plugin
   \<and> snd (Plugin_add example_clone ''cmds'' 4 copied_store) = Inr example_clone
   \<and> view (fst (Plugin_add example_clone ''cmds'' 4 copied_store)) example_plugin
       = view copied_store example_plugin
   \<and> snd (Plugin_remove example_clone ''cmds'' (Some ''CommandA'') copied_store) = Inr example_clone
   \<and> view (fst (Plugin_remove example_clone ''cmds'' (Some ''CommandA'') copied_store))
        example_plugin
       = view copied_store example_plugin
   \<and> snd (Plugin_add example_plugin ''cmds'' 4 copied_store) = Inr example_plugin
   \<and> view (fst (Plugin_add example_plugin ''cmds'' 4 copied_store)) example_clone
       = view copied_store example_clone
   \<and> snd (Plugin_remove example_plugin ''cmds'' None copied_store) = Inr example_plugin
   \<and> view (fst (Plugin_remove example_plugin ''cmds'' None copied_store)) example_clone
       = view copied_store example_clone"
proof -
  have mo: "deref populated_store (model example_plugin) = Some (Obj [''PluginModel''] Opaque)"
    by code_simp
  have le: "(4::nat) \<le> 4"
    by simp
  have c1: "(4::nat) \<notin> set (footprint copied_store example_plugin)"
    by code_simp
  have c2: "(4::nat) \<notin> set (footprint copied_store example_clone)"
    by code_simp
  have s1: "snd (Plugin_add example_clone ''cmds'' 4 copied_store) = Inr example_clone"
    by code_simp
  have s2: "snd (Plugin_remove example_clone ''cmds'' (Some ''CommandA'') copied_store)
      = Inr example_clone"
    by code_simp
  have s3: "snd (Plugin_add example_plugin ''cmds'' 4 copied_store) = Inr example_plugin"
    by code_simp
  have s4: "snd (Plugin_remove example_plugin ''cmds'' None copied_store) = Inr example_plugin"
    by code_simp
  from copy_is_deep_and_independent [OF wf_populated mo le] obtain h' clone where
    copy: "Plugin_copy 4 example_plugin populated_store = (h', Inr clone)" and
    pre: "take (length populated_store) h' = populated_store" and
    v1: "view h' clone = view populated_store example_plugin" and
    v2: "view h' example_plugin = view populated_store example_plugin" and
    f1: "\<And>key c h'' r. Plugin_add clone key c h' = (h'', r) \<Longrightarrow>
           c \<notin> set (footprint h' example_plugin) \<Longrightarrow>
           view h'' example_plugin = view h' example_plugin" and
    f2: "\<And>key n h'' r. Plugin_remove clone key n h' = (h'', r) \<Longrightarrow>
           view h'' example_plugin = view h' example_plugin" and
    f3: "\<And>key c h'' r. Plugin_add example_plugin key c h' = (h'', r) \<Longrightarrow>
           c \<notin> set (footprint h' clone) \<Longrightarrow> view h'' clone = view h' clone" and
    f4: "\<And>key n h'' r. Plugin_remove example_plugin key n h' = (h'', r) \<Longrightarrow>
           view h'' clone = view h' clone"
    by blast
  from copy copy_example have h': "h' = copied_store" and clone: "clone = example_clone"
    by simp_all
  note f1 [unfolded h' clone, OF surjective_pairing c1]
    and f2 [unfolded h' clone, OF surjective_pairing]
    and f3 [unfolded h' clone, OF surjective_pairing c2]
    and f4 [unfolded h' clone, OF surjective_pairing]
  then show ?thesis
    using wf_populated mo copy_example pre v1 v2 s1 s2 s3 s4 unfolding h' clone
    by simp
qed

end
